theory Spec2Isabelle
  imports Complex_Main "HOL-Library.Word" "HOL-Library.Signed_Division" "HOL-Library.Sublist"
begin

section \<open>Go values: machine integers, panics, strings\<close>

text \<open>
  Go's \<open>int\<close> is a 64-bit two's complement integer on the platforms the program targets:
  subtraction wraps, \<open>sint\<close> reads the signed value. A Go string is a sequence of bytes and
  \<open>len\<close> counts bytes, as \<open>length\<close> does on \<open>string\<close>.
\<close>

type_synonym go_int = "64 word"

text \<open>
  A run-time panic ends the call that raised it. Every function that can panic returns
  \<open>panic + 'a\<close>, with \<open>Inl\<close> for the panic.
\<close>

datatype panic =
    IndexOutOfRange nat nat
  | NegativeRepeatCount
  | RepeatOverflow
  | MakeSliceLenOutOfRange
  | NilDereference

definition andThen :: "panic + 'a \<Rightarrow> ('a \<Rightarrow> panic + 'b) \<Rightarrow> panic + 'b" where
  "andThen r f = (case r of Inl e \<Rightarrow> Inl e | Inr v \<Rightarrow> f v)"

text \<open>\<open>mapP\<close> is a \<open>for ... range\<close> loop that fills a slice element by element: the
  first panic ends the loop.\<close>

fun mapP :: "('a \<Rightarrow> panic + 'b) \<Rightarrow> 'a list \<Rightarrow> panic + 'b list" where
  "mapP f [] = Inr []"
| "mapP f (x # xs) = andThen (f x) (\<lambda>y. andThen (mapP f xs) (\<lambda>ys. Inr (y # ys)))"

definition len :: "'a list \<Rightarrow> go_int" where
  "len xs = word_of_nat (length xs)"

text \<open>\<open>a / 2\<close> on \<open>int\<close>: Go truncates the quotient towards zero.\<close>

definition half :: "go_int \<Rightarrow> go_int" where
  "half a = word_of_int (sint a sdiv 2)"

text \<open>\<open>xs[i]\<close> panics outside the slice.\<close>

definition index :: "'a list \<Rightarrow> nat \<Rightarrow> panic + 'a" where
  "index xs i = (if i < length xs then Inr (xs ! i) else Inl (IndexOutOfRange i (length xs)))"

text \<open>
  \<open>strings.Repeat(s, count)\<close> panics when \<open>count\<close> is negative and when the length of the
  result does not fit an \<open>int\<close>.
\<close>

definition Repeat :: "string \<Rightarrow> go_int \<Rightarrow> panic + string" where
  "Repeat s count =
     (if sint count < 0 then Inl NegativeRepeatCount
      else if 2 ^ 63 \<le> int (length s) * sint count then Inl RepeatOverflow
      else Inr (concat (replicate (nat (sint count)) s)))"

text \<open>\<open>strings.Join(elems, sep)\<close>.\<close>

fun Join :: "string list \<Rightarrow> string \<Rightarrow> string" where
  "Join [] sep = []"
| "Join [x] sep = x"
| "Join (x # y # ys) sep = x @ sep @ Join (y # ys) sep"

text \<open>\<open>strings.Split(s, sep)\<close> for a separator of one byte: the fields between the
  separators, one more than there are separators.\<close>

fun Split :: "string \<Rightarrow> char \<Rightarrow> string list" where
  "Split [] sep = [[]]"
| "Split (c # cs) sep =
     (if c = sep then [] # Split cs sep
      else (case Split cs sep of
              [] \<Rightarrow> [[c]]
            | p # ps \<Rightarrow> (c # p) # ps))"

text \<open>
  A \<open>float64\<close> is a sign with a magnitude \<open>m * 2 ^ e\<close> (\<open>m\<close> below \<open>2 ^ 53\<close>, \<open>e\<close> from
  \<open>-1074\<close> to \<open>971\<close>), an infinity, or not a number. \<open>Finite True 0 0\<close> is the negative
  zero.
\<close>

datatype float64 = Finite bool nat int | Infinite bool | NaN

text \<open>Decimal digits of a natural number, as \<open>strconv\<close> and \<open>time\<close> print them.\<close>

fun itoa :: "nat \<Rightarrow> string" where
  "itoa n = (if n < 10 then [char_of (48 + n)] else itoa (n div 10) @ [char_of (48 + n mod 10)])"

declare itoa.simps [simp del]

text \<open>
  \<open>fmt.Sprintf("%.0f", x)\<close> prints the sign of \<open>x\<close> and the digits of its magnitude
  rounded to an integer: the exact decimal expansion of \<open>m * 2 ^ e\<close> is cut after the
  units, rounding to the nearest integer and, half way between two, to the even one.
  \<open>roundHalfEven m k\<close> is that integer for \<open>m / 2 ^ k\<close>.
\<close>

definition roundHalfEven :: "nat \<Rightarrow> nat \<Rightarrow> nat" where
  "roundHalfEven m k =
     (let q = m div 2 ^ k; r = m mod 2 ^ k
      in if 2 * r < 2 ^ k then q
         else if 2 ^ k < 2 * r then q + 1
         else if even q then q else q + 1)"

definition Sprintf_f0 :: "float64 \<Rightarrow> string" where
  "Sprintf_f0 x =
     (case x of
        Finite s m e \<Rightarrow>
          (if s then ''-'' else [])
            @ itoa (if 0 \<le> e then m * 2 ^ nat e else roundHalfEven m (nat (- e)))
      | Infinite s \<Rightarrow> (if s then ''-Inf'' else ''+Inf'')
      | NaN \<Rightarrow> ''NaN'')"

text \<open>
  What it is for a text to be a rounded temperature, in terms that do not depend on the
  printer: \<open>valueOf\<close> is the real number a finite \<open>float64\<close> stands for, \<open>isDecimal\<close>
  holds of the decimal numerals without a sign and without leading zeros, and
  \<open>decimalValue\<close> is the number a numeral denotes.
\<close>

definition valueOf :: "float64 \<Rightarrow> real" where
  "valueOf x =
     (case x of
        Finite s m e \<Rightarrow>
          (if s then - 1 else 1)
            * (if 0 \<le> e then real m * 2 ^ nat e else real m / 2 ^ nat (- e))
      | Infinite s \<Rightarrow> 0
      | NaN \<Rightarrow> 0)"

definition decimalValue :: "string \<Rightarrow> nat" where
  "decimalValue ds = foldl (\<lambda>a c. 10 * a + (of_char c - 48)) 0 ds"

definition decimalDigit :: "char \<Rightarrow> bool" where
  "decimalDigit c = (c \<in> set ''0123456789'')"

definition isDecimal :: "string \<Rightarrow> bool" where
  "isDecimal ds =
     (ds \<noteq> [] \<and> list_all decimalDigit ds \<and> (hd ds \<noteq> CHR ''0'' \<or> ds = ''0''))"

section \<open>The data model\<close>

text \<open>The structs of \<open>main.go\<close>. \<open>'g\<close> stands for \<open>float32\<close>: the program only stores
  the values of that type.\<close>

record Location =
  IP :: string
  City :: string
  Region :: string
  Country :: string
  LatLon :: string
  Lat :: string
  Lon :: string

record LocationIQResponse =
  lat :: string
  lon :: string

record daily =
  WeatherCode :: "go_int list"
  Time :: "string list"
  TemperatureMax :: "float64 list"
  TemperatureMin :: "float64 list"

record 'g Weather =
  Latitude :: 'g
  Longitude :: 'g
  Daily :: daily

record DailyWeather =
  dayWeatherCode :: go_int
  dayTime :: string
  dayTemperatureMax :: float64
  dayTemperatureMin :: float64

record 'g viewModel =
  input :: string
  message :: string
  location :: Location
  dailyWeather :: "DailyWeather list"
  weather :: "'g Weather"

section \<open>What the program takes from outside\<close>

text \<open>
  The lipgloss styles are package variables whose \<open>Render\<close> method wraps a text in the
  escape sequences of the terminal. They belong to a library and are parameters of the
  renderer.
\<close>

record rendering =
  titleStyle :: "string \<Rightarrow> string"
  rainStyle :: "string \<Rightarrow> string"
  sunnyStyle :: "string \<Rightarrow> string"
  cloudStyle3 :: "string \<Rightarrow> string"
  cloudStyle2 :: "string \<Rightarrow> string"

text \<open>
  \<open>io.ReadAll\<close> returns the bytes it has read, with or without an error. \<open>http.Get\<close>
  returns an error together with no response (\<open>GetError None\<close>) or, when a redirect
  fails, with a response (\<open>GetError (Some r)\<close>), or a response and no error.
\<close>

datatype read_result = ReadError string | ReadOk string

datatype http_result = GetError "read_result option" | GetOk read_result

text \<open>
  The network and the decoders: \<open>httpGet\<close> answers a URL; \<open>unmarshalLocations\<close> is
  \<open>json.Unmarshal\<close> into a \<open>[]LocationIQResponse\<close>, \<open>None\<close> when it reports an error;
  \<open>unmarshalWeather\<close> is the \<open>Weather\<close> variable after \<open>json.Unmarshal\<close> has run on it,
  whether it reported an error or not; \<open>TrimSpace\<close> is \<open>strings.TrimSpace\<close>. The lines
  the program prints to the console on an error are not part of the model.
\<close>

record 'g world =
  httpGet :: "string \<Rightarrow> http_result"
  unmarshalLocations :: "string \<Rightarrow> LocationIQResponse list option"
  unmarshalWeather :: "string \<Rightarrow> 'g Weather"
  TrimSpace :: "string \<Rightarrow> string"

section \<open>The weather code catalogue\<close>

definition getWeatherDescriptionFromCode :: "go_int \<Rightarrow> string" where
  "getWeatherDescriptionFromCode code =
     (if code = 0 then ''Sunny''
      else if code \<in> {1, 2, 3} then ''Cloudy''
      else if code \<in> {45, 48} then ''Fog''
      else if code \<in> {51, 53, 55, 56, 57, 61, 63, 65, 66, 67, 80, 81, 82} then ''Rain''
      else if code \<in> {71, 73, 75, 77, 85, 86} then ''Snow''
      else if code \<in> {95, 96, 99} then ''Thunderstorm''
      else ''Unknown weather code'')"

definition getASCIILine1ForWeather :: "rendering \<Rightarrow> go_int \<Rightarrow> string \<times> go_int" where
  "getASCIILine1ForWeather R code =
     (if code = 0 then (sunnyStyle R (CHR 0x5C # '' | /''), len (CHR 0x5C # '' | /''))
      else if code \<in> {1, 2, 3} then (cloudStyle2 R ''  ____'', len ''    __'')
      else if code \<in> {45, 48} then (''o o o'', len ''o o o'')
      else if code \<in> {51, 53, 55, 56, 57, 61, 63, 65, 66, 67, 80, 81, 82}
        then (rainStyle R ''/ / /'', len ''/ / /'')
      else if code \<in> {71, 73, 75, 77, 85, 86} then (''* * * *'', len ''* * * *'')
      else if code \<in> {95, 96, 99} then (''(   ( )'', len ''(   ( )'')
      else (''Unknown weather code'', 1))"

definition getASCIILine2ForWeather :: "rendering \<Rightarrow> go_int \<Rightarrow> string \<times> go_int" where
  "getASCIILine2ForWeather R code =
     (if code = 0 then (sunnyStyle R ''-- O --'', len ''-- O --'')
      else if code \<in> {1, 2, 3} then (cloudStyle2 R ''_(    )'', len ''   (  )'')
      else if code \<in> {45, 48} then (''o o o o'', len ''o o o o'')
      else if code \<in> {51, 53, 55, 56, 57, 61, 63, 65, 66, 67, 80, 81, 82}
        then (rainStyle R ''/ / / /'', len ''/ / / /'')
      else if code \<in> {71, 73, 75, 77, 85, 86} then ('' * * *'', len '' * * *'')
      else if code \<in> {95, 96, 99} then (''(   (   )'', len ''(   (   )'')
      else (''Unknown weather code'', 1))"

definition getASCIILine3ForWeather :: "rendering \<Rightarrow> go_int \<Rightarrow> string \<times> go_int" where
  "getASCIILine3ForWeather R code =
     (if code = 0 then (sunnyStyle R (''/ | '' @ [CHR 0x5C]), len (''/ | '' @ [CHR 0x5C]))
      else if code \<in> {1, 2, 3} then (''(____)___)'', len ''(____)___)'')
      else if code \<in> {45, 48} then (''o o o'', len ''o o o'')
      else if code \<in> {51, 53, 55, 56, 57, 61, 63, 65, 66, 67, 80, 81, 82}
        then (rainStyle R ''/ /  /'', len ''/ /  /'')
      else if code \<in> {71, 73, 75, 77, 85, 86} then (''* * * *'', len ''* * * *'')
      else if code \<in> {95, 96, 99} then (''/ / / /'', len ''/ / / /'')
      else (''Unknown weather code'', 1))"

section \<open>Column formatting\<close>

text \<open>
  Every chunk function ends in the same expression: with \<open>padding\<close> the half of what
  the width leaves, \<open>padding\<close> blanks, the text, and \<open>width - textWidth - padding\<close>
  blanks, the left \<open>strings.Repeat\<close> evaluated first. \<open>pad\<close> is that expression for a
  text and the width the code takes for it; \<open>center\<close> is \<open>pad\<close> with \<open>len(text)\<close>, as the
  date, description and temperature chunks have it.
\<close>

definition pad :: "string \<Rightarrow> go_int \<Rightarrow> go_int \<Rightarrow> panic + string" where
  "pad text textWidth width =
     (let padding = half (width - textWidth) in
      andThen (Repeat '' '' padding) (\<lambda>left.
      andThen (Repeat '' '' (width - textWidth - padding)) (\<lambda>right.
      Inr (left @ text @ right))))"

definition center :: "string \<Rightarrow> go_int \<Rightarrow> panic + string" where
  "center text width = pad text (len text) width"

text \<open>The line functions share one loop: a chunk for each item, in order, and
  \<open>strings.Join(chunks, " | ")\<close>.\<close>

definition line :: "('a \<Rightarrow> panic + string) \<Rightarrow> 'a list \<Rightarrow> panic + string" where
  "line chunk items = andThen (mapP chunk items) (\<lambda>chunks. Inr (Join chunks '' | ''))"

section \<open>Dates\<close>

text \<open>
  \<open>formatDate\<close> calls \<open>time.Parse\<close> with the layout \<open>2006-01-02\<close> and \<open>Time.Format\<close> with
  the layout \<open>Monday January 2\<close>. Both are the standard library's; what follows is their
  behaviour on these two layouts. The layout \<open>2006-01-02\<close> reads four digits, \<open>-\<close>, two
  digits, \<open>-\<close>, two digits and nothing more; the month must be 1 to 12 and the day must
  exist in that month of that year.
\<close>

record date =
  year :: nat
  month :: nat
  day :: nat

definition isDigit :: "string \<Rightarrow> nat \<Rightarrow> bool" where
  "isDigit s i = (i < length s \<and> 48 \<le> (of_char (s ! i) :: nat) \<and> (of_char (s ! i) :: nat) \<le> 57)"

definition digit :: "char \<Rightarrow> nat" where
  "digit c = of_char c - 48"

text \<open>The year: \<open>len(value) >= 4\<close>, a digit first, and \<open>atoi\<close> of the first four bytes,
  which fails unless all four are digits.\<close>

definition getYear :: "string \<Rightarrow> (nat \<times> string) option" where
  "getYear s =
     (if length s < 4 \<or> \<not> isDigit s 0 then None
      else if \<not> (isDigit s 1 \<and> isDigit s 2 \<and> isDigit s 3) then None
      else Some (digit (s ! 0) * 1000 + digit (s ! 1) * 100 + digit (s ! 2) * 10 + digit (s ! 3),
                 drop 4 s))"

text \<open>\<open>getnum(s, true)\<close>: exactly two digits.\<close>

definition getnum :: "string \<Rightarrow> (nat \<times> string) option" where
  "getnum s =
     (if \<not> isDigit s 0 then None
      else if \<not> isDigit s 1 then None
      else Some (digit (s ! 0) * 10 + digit (s ! 1), drop 2 s))"

text \<open>\<open>skip(value, "-")\<close>.\<close>

definition skip :: "string \<Rightarrow> string option" where
  "skip s = (case s of [] \<Rightarrow> None | c # cs \<Rightarrow> if c = CHR ''-'' then Some cs else None)"

definition isLeap :: "nat \<Rightarrow> bool" where
  "isLeap y = (y mod 4 = 0 \<and> (y mod 100 \<noteq> 0 \<or> y mod 400 = 0))"

definition daysIn :: "nat \<Rightarrow> nat \<Rightarrow> nat" where
  "daysIn m y =
     (if m = 2 then (if isLeap y then 29 else 28)
      else if m \<in> {4, 6, 9, 11} then 30 else 31)"

definition Parse :: "string \<Rightarrow> date option" where
  "Parse s =
     (case getYear s of None \<Rightarrow> None | Some (y, s1) \<Rightarrow>
      case skip s1 of None \<Rightarrow> None | Some s2 \<Rightarrow>
      case getnum s2 of None \<Rightarrow> None | Some (m, s3) \<Rightarrow>
      if m = 0 \<or> 12 < m then None else
      case skip s3 of None \<Rightarrow> None | Some s4 \<Rightarrow>
      case getnum s4 of None \<Rightarrow> None | Some (d, s5) \<Rightarrow>
      if s5 \<noteq> [] then None
      else if d < 1 \<or> daysIn m y < d then None
      else Some \<lparr>year = y, month = m, day = d\<rparr>)"

text \<open>
  The day of the week, from the number of days since Monday, 1 January of year 1 in the
  proleptic Gregorian calendar (negative in year 0): 0 is Sunday.
\<close>

definition daysBefore :: "nat \<Rightarrow> nat \<Rightarrow> nat" where
  "daysBefore m y =
     sum_list (map (\<lambda>k. daysIn k y) [1..<m])"

definition dayNumber :: "date \<Rightarrow> int" where
  "dayNumber t =
     (let y = int (year t) - 1 in
      365 * y + y div 4 - y div 100 + y div 400
        + int (daysBefore (month t) (year t)) + int (day t) - 1)"

definition Weekday :: "date \<Rightarrow> nat" where
  "Weekday t = nat ((dayNumber t + 1) mod 7)"

definition longDayNames :: "string list" where
  "longDayNames =
     [''Sunday'', ''Monday'', ''Tuesday'', ''Wednesday'', ''Thursday'', ''Friday'', ''Saturday'']"

definition longMonthNames :: "string list" where
  "longMonthNames =
     [''January'', ''February'', ''March'', ''April'', ''May'', ''June'', ''July'',
      ''August'', ''September'', ''October'', ''November'', ''December'']"

text \<open>The layout element \<open>2\<close> prints the day of the month in decimal, without padding.\<close>

definition Format :: "date \<Rightarrow> string" where
  "Format t =
     longDayNames ! Weekday t @ '' '' @ longMonthNames ! (month t - 1) @ '' '' @ itoa (day t)"

definition formatDate :: "string \<Rightarrow> string" where
  "formatDate dateStr = (case Parse dateStr of None \<Rightarrow> [] | Some t \<Rightarrow> Format t)"

text \<open>
  The calendar, written without the program's tables: the length of a month, the dates
  that exist (years 0 to 9999, the range of four digits), the day after a date, and the
  text of a date in the form YYYY-MM-DD.
\<close>

definition leapYear :: "nat \<Rightarrow> bool" where
  "leapYear y = (4 dvd y \<and> (\<not> 100 dvd y \<or> 400 dvd y))"

definition monthLength :: "nat \<Rightarrow> nat \<Rightarrow> nat" where
  "monthLength y m =
     [31, if leapYear y then 29 else 28, 31, 30, 31, 30, 31, 31, 30, 31, 30, 31] ! (m - 1)"

definition properDay :: "date \<Rightarrow> bool" where
  "properDay t =
     (1 \<le> month t \<and> month t \<le> 12 \<and> 1 \<le> day t \<and> day t \<le> monthLength (year t) (month t))"

definition calendarDate :: "date \<Rightarrow> bool" where
  "calendarDate t = (year t \<le> 9999 \<and> properDay t)"

definition nextDay :: "date \<Rightarrow> date" where
  "nextDay t =
     (if day t < monthLength (year t) (month t) then t\<lparr>day := day t + 1\<rparr>
      else if month t < 12 then t\<lparr>month := month t + 1, day := 1\<rparr>
      else \<lparr>year = year t + 1, month = 1, day = 1\<rparr>)"

definition digits2 :: "nat \<Rightarrow> string" where
  "digits2 n = [char_of (48 + n div 10), char_of (48 + n mod 10)]"

definition digits4 :: "nat \<Rightarrow> string" where
  "digits4 n = digits2 (n div 100) @ digits2 (n mod 100)"

definition isoDate :: "date \<Rightarrow> string" where
  "isoDate t = digits4 (year t) @ ''-'' @ digits2 (month t) @ ''-'' @ digits2 (day t)"

text \<open>
  The text the claims expect for a date whose weekday is number \<open>i\<close> (0 for Sunday): the
  full name of the weekday, the full name of the month, and the day of the month as its
  two digits without a leading zero.
\<close>

definition weekdayNames :: "string list" where
  "weekdayNames =
     [''Sunday'', ''Monday'', ''Tuesday'', ''Wednesday'', ''Thursday'', ''Friday'', ''Saturday'']"

definition monthNames :: "string list" where
  "monthNames =
     [''January'', ''February'', ''March'', ''April'', ''May'', ''June'', ''July'',
      ''August'', ''September'', ''October'', ''November'', ''December'']"

definition dateText :: "nat \<Rightarrow> date \<Rightarrow> string" where
  "dateText i t =
     weekdayNames ! i @ '' '' @ monthNames ! (month t - 1) @ '' ''
       @ dropWhile (\<lambda>c. c = CHR ''0'') (digits2 (day t))"

section \<open>Chunks and lines\<close>

definition formatDatesChunk :: "string \<Rightarrow> go_int \<Rightarrow> panic + string" where
  "formatDatesChunk text width = center (formatDate text) width"

definition formatDatesLine :: "string list \<Rightarrow> go_int \<Rightarrow> panic + string" where
  "formatDatesLine dates width = line (\<lambda>d. formatDatesChunk d width) dates"

definition formatHighsChunk :: "float64 \<Rightarrow> go_int \<Rightarrow> panic + string" where
  "formatHighsChunk high width = center (''High '' @ Sprintf_f0 high) width"

definition formatHighsLine :: "float64 list \<Rightarrow> go_int \<Rightarrow> panic + string" where
  "formatHighsLine highs width = line (\<lambda>h. formatHighsChunk h width) highs"

definition formatLowsChunk :: "float64 \<Rightarrow> go_int \<Rightarrow> panic + string" where
  "formatLowsChunk low width = center (''Low '' @ Sprintf_f0 low) width"

definition formatLowsLine :: "float64 list \<Rightarrow> go_int \<Rightarrow> panic + string" where
  "formatLowsLine lows width = line (\<lambda>l. formatLowsChunk l width) lows"

text \<open>\<open>make([]string, numOfChunks)\<close> panics on a negative length.\<close>

definition formatSpaceLine :: "go_int \<Rightarrow> go_int \<Rightarrow> panic + string" where
  "formatSpaceLine numOfChunks width =
     (if sint numOfChunks < 0 then Inl MakeSliceLenOutOfRange
      else line (\<lambda>i. Repeat '' '' width) [0..<nat (sint numOfChunks)])"

definition formatWeatherCodeChunk :: "go_int \<Rightarrow> go_int \<Rightarrow> panic + string" where
  "formatWeatherCodeChunk code width = center (getWeatherDescriptionFromCode code) width"

definition formatWeatherCodeLine :: "go_int list \<Rightarrow> go_int \<Rightarrow> panic + string" where
  "formatWeatherCodeLine codes width = line (\<lambda>c. formatWeatherCodeChunk c width) codes"

definition formatASCIICodeChunk :: "rendering \<Rightarrow> go_int \<Rightarrow> go_int \<Rightarrow> go_int \<Rightarrow> panic + string" where
  "formatASCIICodeChunk R code width lineNumber =
     (let (weatherASCII, weatherASCIIWidth) =
            (if lineNumber = 1 then getASCIILine1ForWeather R code
             else if lineNumber = 2 then getASCIILine2ForWeather R code
             else if lineNumber = 3 then getASCIILine3ForWeather R code
             else (''Unkown'', 9))
      in pad weatherASCII weatherASCIIWidth width)"

definition formatVisualWeatherLine :: "rendering \<Rightarrow> go_int list \<Rightarrow> go_int \<Rightarrow> go_int \<Rightarrow> panic + string" where
  "formatVisualWeatherLine R codes width lineNumber =
     line (\<lambda>c. formatASCIICodeChunk R c width lineNumber) codes"

section \<open>The view\<close>

definition View :: "rendering \<Rightarrow> 'g viewModel \<Rightarrow> panic + string" where
  "View R m =
     (let s0 = ''\<newline>''
            @ titleStyle R (''Weather for '' @ City (location m) @ '', '' @ Region (location m))
            @ ''\<newline>''
            @ titleStyle R (''Latitude: '' @ Lat (location m) @ '', Longitude: '' @ Lon (location m))
            @ ''\<newline>\<newline>'';
          width = 25;
          dates = Time (Daily (weather m));
          highs = TemperatureMax (Daily (weather m));
          lows = TemperatureMin (Daily (weather m));
          codes = WeatherCode (Daily (weather m))
      in
      andThen (formatDatesLine dates width) (\<lambda>r1.
      andThen (formatSpaceLine (len dates) width) (\<lambda>r2.
      andThen (formatVisualWeatherLine R codes width 1) (\<lambda>r3.
      andThen (formatVisualWeatherLine R codes width 2) (\<lambda>r4.
      andThen (formatVisualWeatherLine R codes width 3) (\<lambda>r5.
      andThen (formatSpaceLine (len dates) width) (\<lambda>r6.
      andThen (formatWeatherCodeLine codes width) (\<lambda>r7.
      andThen (formatHighsLine highs width) (\<lambda>r8.
      andThen (formatLowsLine lows width) (\<lambda>r9.
      Inr (s0 @ r1 @ ''\<newline>'' @ r2 @ ''\<newline>'' @ r3 @ ''\<newline>'' @ r4 @ ''\<newline>''
              @ r5 @ ''\<newline>'' @ r6 @ ''\<newline>'' @ r7 @ ''\<newline>'' @ r8 @ ''\<newline>''
              @ r9 @ ''\<newline>\<newline>''
              @ ''\<newline>''
              @ ''Enter a city and state (e.g., Los Angeles, CA) to get weather or type 'quit' to exit: \<newline>''
              @ input m)))))))))))"

section \<open>Lookups\<close>

definition body :: "read_result \<Rightarrow> string" where
  "body r = (case r of ReadError b \<Rightarrow> b | ReadOk b \<Rightarrow> b)"

text \<open>The URL of the geocoding request, as \<open>fmt.Sprintf\<close> builds it from the key, the
  city and the state.\<close>

definition searchURL :: "string \<Rightarrow> string \<Rightarrow> string" where
  "searchURL city state =
     (let apiKey = ''pk.cd63b67671438fd13619f5b4afadcb8c''
      in ''https://us1.locationiq.com/v1/search.php?key='' @ apiKey
           @ ''&q='' @ city @ '','' @ state @ ''&format=json'')"

text \<open>
  \<open>getLatLonFromCityState\<close> returns the default pair when the request, the read or the
  decoding reports an error, and when the list of candidates is empty.
\<close>

definition getLatLonFromCityState :: "'g world \<Rightarrow> string \<Rightarrow> string \<Rightarrow> string \<times> string" where
  "getLatLonFromCityState W city state =
     (let defaultLat = ''0.0'';
          defaultLon = ''0.0'';
          url = searchURL city state
      in case httpGet W url of
           GetError _ \<Rightarrow> (defaultLat, defaultLon)
         | GetOk (ReadError _) \<Rightarrow> (defaultLat, defaultLon)
         | GetOk (ReadOk b) \<Rightarrow>
             (case unmarshalLocations W b of
                None \<Rightarrow> (defaultLat, defaultLon)
              | Some locationData \<Rightarrow>
                  (case locationData of
                     r # _ \<Rightarrow> (lat r, lon r)
                   | [] \<Rightarrow> (defaultLat, defaultLon))))"

text \<open>
  What the claims call a lookup that finds nothing: the request or the read fails, the
  body does not decode, or the list of candidates is empty.
\<close>

definition lookupFails :: "'g world \<Rightarrow> http_result \<Rightarrow> bool" where
  "lookupFails W r =
     (case r of
        GetError _ \<Rightarrow> True
      | GetOk (ReadError _) \<Rightarrow> True
      | GetOk (ReadOk b) \<Rightarrow>
          (case unmarshalLocations W b of None \<Rightarrow> True | Some cs \<Rightarrow> cs = []))"

text \<open>
  \<open>getWeatherForLocation\<close> prints the errors and goes on: with no response,
  \<open>res.Body\<close> dereferences a nil pointer; after a failed read it decodes the bytes it has.
\<close>

definition getWeatherForLocation :: "'g world \<Rightarrow> string \<Rightarrow> string \<Rightarrow> panic + 'g Weather" where
  "getWeatherForLocation W la lo =
     (let dailyMetrics = ''weather_code,temperature_2m_max,temperature_2m_min'';
          units = ''fahrenheit'';
          baseURL = ''https://api.open-meteo.com/v1/forecast'';
          queryString = ''?latitude='' @ la @ ''&longitude='' @ lo @ ''&daily='' @ dailyMetrics
                          @ ''&temperature_unit='' @ units;
          fullURL = baseURL @ queryString
      in case httpGet W fullURL of
           GetError None \<Rightarrow> Inl NilDereference
         | GetError (Some r) \<Rightarrow> Inr (unmarshalWeather W (body r))
         | GetOk r \<Rightarrow> Inr (unmarshalWeather W (body r)))"

section \<open>Handling a submitted line\<close>

text \<open>The loop that copies the forecast arrays into \<open>DailyWeather\<close> structs: one entry
  for each index of \<open>Time\<close>, the other three arrays read at the same index.\<close>

definition dailyWeatherAt :: "'g Weather \<Rightarrow> nat \<Rightarrow> panic + DailyWeather" where
  "dailyWeatherAt w i =
     andThen (index (Time (Daily w)) i) (\<lambda>t.
     andThen (index (WeatherCode (Daily w)) i) (\<lambda>c.
     andThen (index (TemperatureMax (Daily w)) i) (\<lambda>hi.
     andThen (index (TemperatureMin (Daily w)) i) (\<lambda>lo.
     Inr \<lparr>dayWeatherCode = c, dayTime = t, dayTemperatureMax = hi, dayTemperatureMin = lo\<rparr>))))"

definition dailyWeatherArray :: "'g Weather \<Rightarrow> panic + DailyWeather list" where
  "dailyWeatherArray w = mapP (dailyWeatherAt w) [0..<length (Time (Daily w))]"

definition handleInput :: "'g world \<Rightarrow> 'g viewModel \<Rightarrow> string \<Rightarrow> panic + 'g viewModel" where
  "handleInput W m inp =
     (let parts = Split inp CHR '','';
          m1 = (if length parts < 2
                then m\<lparr>message := ''Please enter both a city and a state (e.g., Los Angeles, CA)''\<rparr>
                else m)
      in
      andThen (index parts 0) (\<lambda>p0.
      let city = TrimSpace W p0 in
      andThen (index parts 1) (\<lambda>p1.
      let state = TrimSpace W p1;
          (la, lo) = getLatLonFromCityState W city state;
          loc = \<lparr>IP = [], City = city, Region = state, Country = [], LatLon = [],
                 Lat = la, Lon = lo\<rparr>;
          loc1 = (if la = ''0.0'' \<and> lo = ''0.0''
                  then loc\<lparr>City := ''Unknown'', Region := ''Unknown''\<rparr>
                  else loc)
      in
      andThen (getWeatherForLocation W (Lat loc1) (Lon loc1)) (\<lambda>wx.
      andThen (dailyWeatherArray wx) (\<lambda>arr.
      Inr (m1\<lparr>location := loc1, dailyWeather := arr, weather := wx, input := []\<rparr>))))))"

section \<open>Concrete terminals, networks and models\<close>

text \<open>
  For running the renderer on concrete forecasts: a terminal without colours, where
  \<open>Render\<close> returns its text unchanged.
\<close>

definition plainRendering :: rendering where
  "plainRendering =
     \<lparr>titleStyle = (\<lambda>s. s), rainStyle = (\<lambda>s. s), sunnyStyle = (\<lambda>s. s),
      cloudStyle3 = (\<lambda>s. s), cloudStyle2 = (\<lambda>s. s)\<rparr>"

text \<open>
  A network for running \<open>handleInput\<close>: the geocoder answers every query with the list of
  candidates \<open>cands\<close>, the forecast service answers with one day (a high of 75.4 and a
  low of 60.2, as \<open>float64\<close> has them), and the texts have no white space but blanks,
  which \<open>strings.TrimSpace\<close> removes at both ends.
\<close>

definition trimBlanks :: "string \<Rightarrow> string" where
  "trimBlanks s = rev (dropWhile (\<lambda>c. c = CHR '' '') (rev (dropWhile (\<lambda>c. c = CHR '' '') s)))"

definition oneDay :: "int Weather" where
  "oneDay =
     \<lparr>Latitude = 0, Longitude = 0,
      Daily = \<lparr>WeatherCode = [0], Time = [''2024-10-13''],
               TemperatureMax = [Finite False 2652901655497933 (- 45)],
               TemperatureMin = [Finite False 4236198399495373 (- 46)]\<rparr>\<rparr>"

definition sampleWorld :: "LocationIQResponse list \<Rightarrow> int world" where
  "sampleWorld cands =
     \<lparr>httpGet = (\<lambda>url. GetOk (ReadOk url)),
      unmarshalLocations = (\<lambda>b. Some cands),
      unmarshalWeather = (\<lambda>b. oneDay),
      TrimSpace = trimBlanks\<rparr>"

text \<open>The model that \<open>initialModel\<close> builds from the default location, before any
  forecast has arrived.\<close>

definition sampleModel :: "int viewModel" where
  "sampleModel =
     \<lparr>input = [], message = [],
      location = \<lparr>IP = ''0.0.0.0'', City = ''Minneapolis'', Region = ''Minnesota'',
                   Country = ''US'', LatLon = ''44.98,-93.2638'', Lat = ''44.98'',
                   Lon = ''-93.2638''\<rparr>,
      dailyWeather = [],
      weather = \<lparr>Latitude = 0, Longitude = 0,
                  Daily = \<lparr>WeatherCode = [], Time = [], TemperatureMax = [],
                           TemperatureMin = []\<rparr>\<rparr>\<rparr>"

section \<open>Arithmetic of the padding\<close>

lemma sint_len: "length xs < 2 ^ 63 \<Longrightarrow> sint (len xs) = int (length xs)"
  unfolding len_def
  by (simp add: signed_of_nat signed_take_bit_int_eq_self)

lemma sint_sub:
  fixes a b :: go_int
  assumes "- (2 ^ 63) \<le> sint a - sint b" "sint a - sint b < 2 ^ 63"
  shows "sint (a - b) = sint a - sint b"
  using assms by (simp add: sint_word_diff signed_take_bit_int_eq_self)

lemma sdiv2_nonneg: "0 \<le> k \<Longrightarrow> (k::int) sdiv 2 = k div 2"
  by (simp add: signed_divide_int_def sgn_if)

lemma sdiv2_neg: "k < 0 \<Longrightarrow> (k::int) sdiv 2 = - ((- k) div 2)"
  by (simp add: signed_divide_int_def sgn_if)

lemma sint_half: "sint (half a) = sint a sdiv 2"
proof -
  have lo: "- (2 ^ 63) \<le> sint a" and hi: "sint a < 2 ^ 63"
    using sint_ge [of a] sint_lt [of a] by simp_all
  have "- (2 ^ 63) \<le> sint a sdiv 2 \<and> sint a sdiv 2 < 2 ^ 63"
  proof (cases "0 \<le> sint a")
    case True
    then show ?thesis using hi by (simp add: sdiv2_nonneg) linarith
  next
    case False
    then show ?thesis using lo by (simp add: sdiv2_neg) linarith
  qed
  then show ?thesis
    unfolding half_def by (simp add: sint_sbintrunc' signed_take_bit_int_eq_self)
qed

lemma Repeat_blank:
  "0 \<le> sint n \<Longrightarrow> Repeat '' '' n = Inr (replicate (nat (sint n)) CHR '' '')"
proof -
  assume h: "0 \<le> sint n"
  have "sint n < 2 ^ 63" using sint_lt [of n] by simp
  moreover have "concat (replicate k '' '') = replicate k CHR '' ''" for k
    by (induction k) simp_all
  ultimately show ?thesis using h by (simp add: Repeat_def)
qed

lemma Repeat_negative: "sint n < 0 \<Longrightarrow> Repeat s n = Inl NegativeRepeatCount"
  by (simp add: Repeat_def)

section \<open>Padding a text\<close>

lemma pad_fits:
  assumes "sint tw \<le> sint width" "0 \<le> sint tw"
  shows "pad text tw width =
           Inr (replicate (nat ((sint width - sint tw) div 2)) CHR '' '' @ text
                @ replicate (nat (sint width - sint tw - (sint width - sint tw) div 2)) CHR '' '')"
proof -
  define d where "d = sint width - sint tw"
  have d0: "0 \<le> d" using assms by (simp add: d_def)
  have dhi: "d < 2 ^ 63" using sint_lt [of width] assms by (simp add: d_def)
  have sd: "sint (width - tw) = d"
    unfolding d_def using d0 dhi by (intro sint_sub) (simp_all add: d_def)
  have sp: "sint (half (width - tw)) = d div 2"
    using d0 by (simp add: sint_half sd sdiv2_nonneg)
  have sr: "sint (width - tw - half (width - tw)) = d - d div 2"
  proof -
    have "- (2 ^ 63) \<le> d - d div 2" "d - d div 2 < 2 ^ 63"
      using d0 dhi by linarith+
    then have "sint (width - tw - half (width - tw)) = sint (width - tw) - sint (half (width - tw))"
      by (intro sint_sub) (simp_all only: sd sp)
    then show ?thesis by (simp add: sd sp)
  qed
  have l: "Repeat '' '' (half (width - tw)) = Inr (replicate (nat (d div 2)) CHR '' '')"
    using d0 Repeat_blank [of "half (width - tw)"] by (simp add: sp)
  have r: "Repeat '' '' (width - tw - half (width - tw))
             = Inr (replicate (nat (d - d div 2)) CHR '' '')"
  proof -
    have "0 \<le> d - d div 2" using d0 by linarith
    then show ?thesis using Repeat_blank [of "width - tw - half (width - tw)"] by (simp add: sr)
  qed
  show ?thesis
    unfolding pad_def Let_def l r andThen_def d_def [symmetric] by simp
qed

lemma pad_short:
  assumes "sint width < sint tw" "- (2 ^ 63) \<le> sint width - sint tw"
  shows "pad text tw width = Inl NegativeRepeatCount"
proof -
  define d where "d = sint width - sint tw"
  have d0: "d < 0" using assms by (simp add: d_def)
  have dlo: "- (2 ^ 63) \<le> d" using assms by (simp add: d_def)
  have sd: "sint (width - tw) = d"
    unfolding d_def using d0 dlo by (intro sint_sub) (simp_all add: d_def)
  have sp: "sint (half (width - tw)) = - ((- d) div 2)"
    using d0 by (simp add: sint_half sd sdiv2_neg)
  show ?thesis
  proof (cases "d = - 1")
    case True
    then have p0: "sint (half (width - tw)) = 0" by (simp add: sp)
    have "sint (width - tw - half (width - tw)) = sint (width - tw) - sint (half (width - tw))"
      by (intro sint_sub) (simp_all add: sd p0 True)
    then have "sint (width - tw - half (width - tw)) < 0" by (simp add: sd p0 True)
    then have r: "Repeat '' '' (width - tw - half (width - tw)) = Inl NegativeRepeatCount"
      by (rule Repeat_negative)
    have l: "Repeat '' '' (half (width - tw)) = Inr []"
      using Repeat_blank [of "half (width - tw)"] by (simp add: p0)
    show ?thesis unfolding pad_def Let_def l r andThen_def by simp
  next
    case False
    then have "sint (half (width - tw)) < 0" using d0 by (simp add: sp)
    then have l: "Repeat '' '' (half (width - tw)) = Inl NegativeRepeatCount"
      by (rule Repeat_negative)
    show ?thesis unfolding pad_def Let_def l andThen_def by simp
  qed
qed

lemma center_fits:
  assumes "int (length text) \<le> sint width"
  shows "center text width =
           Inr (replicate ((nat (sint width) - length text) div 2) CHR '' '' @ text
                @ replicate (nat (sint width) - length text
                             - (nat (sint width) - length text) div 2) CHR '' '')"
proof -
  have "int (length text) < 2 ^ 63" using assms sint_lt [of width] by simp
  then have lt: "length text < 2 ^ 63" by (metis of_nat_less_numeral_power_cancel_iff)
  have sl: "sint (len text) = int (length text)" using lt by (rule sint_len)
  have le: "sint (len text) \<le> sint width" using assms by (simp add: sl)
  have nn: "0 \<le> sint (len text)" by (simp add: sl)
  define w where "w = nat (sint width)"
  have w: "sint width = int w" using assms by (simp add: w_def)
  have ln: "length text \<le> w" using assms by (simp add: w)
  have a: "nat ((int w - int (length text)) div 2) = (w - length text) div 2"
    using ln by (simp add: nat_div_distrib of_nat_diff [symmetric] del: of_nat_diff) 
  have b: "nat (int w - int (length text) - (int w - int (length text)) div 2)
             = w - length text - (w - length text) div 2"
    using ln by (simp add: of_nat_diff [symmetric] zdiv_int [symmetric] nat_diff_distrib' del: of_nat_diff) 
  show ?thesis
    unfolding center_def pad_fits [OF le nn] sl w a b w_def [symmetric] by simp
qed

lemma center_short:
  assumes "sint width < int (length text)" "length text < 2 ^ 63"
    "- (2 ^ 63) \<le> sint width - int (length text)"
  shows "center text width = Inl NegativeRepeatCount"
proof -
  have sl: "sint (len text) = int (length text)" using assms(2) by (rule sint_len)
  show ?thesis unfolding center_def
    using assms(1,3) by (intro pad_short) (simp_all only: sl)
qed

section \<open>Loops and joins\<close>

lemma mapP_Inr:
  "(\<And>x. x \<in> set xs \<Longrightarrow> f x = Inr (g x)) \<Longrightarrow> mapP f xs = Inr (map g xs)"
  by (induction xs) (simp_all add: andThen_def)

lemma Join_Cons:
  "cs \<noteq> [] \<Longrightarrow> Join (c # cs) sep = c @ sep @ Join cs sep"
  by (cases cs) simp_all

lemma Join_length:
  "cs \<noteq> [] \<Longrightarrow> (\<And>c. c \<in> set cs \<Longrightarrow> length c = w) \<Longrightarrow>
     length (Join cs sep) = length cs * w + (length cs - 1) * length sep"
proof (induction cs)
  case Nil
  then show ?case by simp
next
  case (Cons c cs)
  have lc: "length c = w" using Cons.prems by simp
  show ?case
  proof (cases cs)
    case Nil
    then show ?thesis using lc by simp
  next
    case (Cons d ds)
    then have ne: "cs \<noteq> []" by simp
    have ih: "length (Join cs sep) = length cs * w + (length cs - 1) * length sep"
      using ne Cons.prems by (intro Cons.IH) simp_all
    have "length (Join (c # cs) sep) = w + length sep + length (Join cs sep)"
      by (simp add: Join_Cons [OF ne] lc)
    also have "\<dots> = w + length sep + (Suc (length ds) * w + length ds * length sep)"
      unfolding ih by (simp add: Cons)
    also have "\<dots> = length (c # cs) * w + (length (c # cs) - 1) * length sep"
      by (simp add: Cons)
    finally show ?thesis .
  qed
qed

lemma drop_step:
  "length c = w \<Longrightarrow> drop (Suc j * (w + n) + k) (c @ sep @ rest) = drop (j * (w + n) + k + n) (sep @ rest)"
  by (simp add: add_ac)

lemma Join_chunk:
  "(\<And>c. c \<in> set cs \<Longrightarrow> length c = w) \<Longrightarrow> i < length cs \<Longrightarrow>
     take w (drop (i * (w + length sep)) (Join cs sep)) = cs ! i"
proof (induction cs arbitrary: i)
  case Nil
  then show ?case by simp
next
  case (Cons c cs)
  have lc: "length c = w" using Cons.prems by simp
  show ?case
  proof (cases i)
    case 0
    then show ?thesis using lc by (cases "cs = []") (simp_all add: Join_Cons)
  next
    case (Suc j)
    then have j: "j < length cs" using Cons.prems by simp
    then have ne: "cs \<noteq> []" by auto
    have ih: "take w (drop (j * (w + length sep)) (Join cs sep)) = cs ! j"
      using Cons.prems j by (intro Cons.IH) simp_all
    have "drop (Suc j * (w + length sep)) (c @ sep @ Join cs sep)
            = drop (j * (w + length sep) + 0 + length sep) (sep @ Join cs sep)"
      using drop_step [OF lc, of j "length sep" 0 sep "Join cs sep"] by simp
    also have "\<dots> = drop (j * (w + length sep)) (Join cs sep)"
      by simp
    finally have "take w (drop (Suc j * (w + length sep)) (Join (c # cs) sep)) = cs ! j"
      by (simp only: Join_Cons [OF ne] ih)
    then show ?thesis by (simp only: Suc nth_Cons_Suc)
  qed
qed

lemma Join_separator:
  "(\<And>c. c \<in> set cs \<Longrightarrow> length c = w) \<Longrightarrow> Suc i < length cs \<Longrightarrow>
     take (length sep) (drop (i * (w + length sep) + w) (Join cs sep)) = sep"
proof (induction cs arbitrary: i)
  case Nil
  then show ?case by simp
next
  case (Cons c cs)
  have lc: "length c = w" using Cons.prems by simp
  have ne: "cs \<noteq> []" using Cons.prems by auto
  show ?case
  proof (cases i)
    case 0
    then show ?thesis using lc by (simp add: Join_Cons [OF ne])
  next
    case (Suc j)
    then have j: "Suc j < length cs" using Cons.prems by simp
    have ih: "take (length sep) (drop (j * (w + length sep) + w) (Join cs sep)) = sep"
      using Cons.prems j by (intro Cons.IH) simp_all
    have "drop (Suc j * (w + length sep) + w) (c @ sep @ Join cs sep)
            = drop (j * (w + length sep) + w + length sep) (sep @ Join cs sep)"
      by (rule drop_step [OF lc])
    also have "\<dots> = drop (j * (w + length sep) + w) (Join cs sep)"
      by simp
    finally have "take (length sep) (drop (Suc j * (w + length sep) + w) (Join (c # cs) sep)) = sep"
      by (simp only: Join_Cons [OF ne] ih)
    then show ?thesis by (simp only: Suc)
  qed
qed

lemma center_fits_length:
  assumes "int (length text) \<le> sint width"
  shows "\<exists>c. center text width = Inr c \<and> length c = nat (sint width)"
proof -
  have "length text \<le> nat (sint width)" using assms by simp
  then show ?thesis unfolding center_fits [OF assms] by simp
qed

section \<open>Claims about centring\<close>

text \<open>
  C4. For every text and width with \<open>len(text) \<le> width\<close>, \<open>center\<close> returns a string of
  exactly \<open>width\<close> bytes that contains the text as a contiguous substring: \<open>l\<close> blanks, the
  text, \<open>r\<close> blanks, with \<open>r = l\<close> when the space left over is even and \<open>r = l + 1\<close> when
  it is odd, so the extra blank is on the right.
\<close>

theorem center_fills_width:
  assumes "int (length text) \<le> sint width"
  shows "\<exists>s l r. center text width = Inr s
           \<and> length s = nat (sint width)
           \<and> sublist text s
           \<and> s = replicate l CHR '' '' @ text @ replicate r CHR '' ''
           \<and> (even (nat (sint width) - length text) \<longrightarrow> r = l)
           \<and> (odd (nat (sint width) - length text) \<longrightarrow> r = Suc l)"
proof -
  define d where "d = nat (sint width) - length text"
  define s where "s = replicate (d div 2) CHR '' '' @ text @ replicate (d - d div 2) CHR '' ''"
  have le: "length text \<le> nat (sint width)" using assms by simp
  have c: "center text width = Inr s"
    unfolding s_def d_def by (rule center_fits [OF assms])
  have n: "length s = nat (sint width)"
    using le by (simp add: s_def d_def)
  have sub: "sublist text s"
    unfolding sublist_def s_def by blast
  have ev: "even d \<longrightarrow> d - d div 2 = d div 2" by presburger
  have od: "odd d \<longrightarrow> d - d div 2 = Suc (d div 2)" by presburger
  show ?thesis
    using c n sub ev od unfolding d_def [symmetric] s_def by blast
qed

theorem center_fills_width_witness:
  "int (length ''Sunny'') \<le> sint (8 :: go_int)
   \<and> center ''Sunny'' 8 = Inr '' Sunny  ''"
proof -
  have h: "int (length ''Sunny'') \<le> sint (8 :: go_int)" by simp
  obtain s l r where c: "center ''Sunny'' 8 = Inr s"
    and n: "length s = nat (sint (8 :: go_int))"
    and s: "s = replicate l CHR '' '' @ ''Sunny'' @ replicate r CHR '' ''"
    and od: "odd (nat (sint (8 :: go_int)) - length ''Sunny'') \<longrightarrow> r = Suc l"
    using center_fills_width [OF h] by blast
  have "r = Suc l" using od by simp
  moreover have "l + r = 3" using n by (simp add: s)
  ultimately have "l = 1" "r = 2" by simp_all
  then have "s = '' Sunny  ''" by (simp add: s numeral_2_eq_2)
  then show ?thesis using c h by simp
qed

text \<open>
  C2, as the spec has it: for \<open>len(text) > width\<close> a negative pad count is taken as zero
  and the text comes back without an error. The code does not clamp: at \<open>"Sunny"\<close> and
  width 4 the left padding is empty, the right count is \<open>-1\<close>, and \<open>strings.Repeat\<close>
  panics; so does the description chunk of code 0.
\<close>

theorem center_clamp_counterexample:
  "sint (4 :: go_int) < int (length ''Sunny'')
   \<and> center ''Sunny'' 4 = Inl NegativeRepeatCount
   \<and> formatWeatherCodeChunk 0 4 = Inl NegativeRepeatCount"
  by code_simp

text \<open>
  C2, amended: for every text and width with \<open>len(text) > width\<close> (and \<open>width - len(text)\<close>
  within the range of \<open>int\<close>), \<open>center\<close> panics with the negative count of
  \<open>strings.Repeat\<close>; no count is clamped.
\<close>

theorem center_too_narrow:
  assumes "sint width < int (length text)"
    and "length text < 2 ^ 63"
    and "- (2 ^ 63) \<le> sint width - int (length text)"
  shows "center text width = Inl NegativeRepeatCount"
  using assms by (rule center_short)

theorem center_too_narrow_witness:
  "sint (4 :: go_int) < int (length ''Sunny'')
   \<and> length ''Sunny'' < 2 ^ 63
   \<and> - (2 ^ 63) \<le> sint (4 :: go_int) - int (length ''Sunny'')
   \<and> center ''Sunny'' 4 = Inl NegativeRepeatCount"
proof -
  have h1: "sint (4 :: go_int) < int (length ''Sunny'')" by simp
  have h2: "length ''Sunny'' < 2 ^ 63" by simp
  have h3: "- (2 ^ 63) \<le> sint (4 :: go_int) - int (length ''Sunny'')" by simp
  show ?thesis using h1 h2 h3 center_too_narrow [OF h1 h2 h3] by blast
qed

section \<open>Claims about lines\<close>

lemma formatWeatherCodeLine_line:
  "formatWeatherCodeLine codes width = line (\<lambda>c. center (getWeatherDescriptionFromCode c) width) codes"
  by (simp add: formatWeatherCodeLine_def formatWeatherCodeChunk_def)

lemma formatDatesLine_line:
  "formatDatesLine dates width = line (\<lambda>d. center (formatDate d) width) dates"
  by (simp add: formatDatesLine_def formatDatesChunk_def)

lemma formatHighsLine_line:
  "formatHighsLine highs width = line (\<lambda>h. center (''High '' @ Sprintf_f0 h) width) highs"
  by (simp add: formatHighsLine_def formatHighsChunk_def)

lemma formatLowsLine_line:
  "formatLowsLine lows width = line (\<lambda>l. center (''Low '' @ Sprintf_f0 l) width) lows"
  by (simp add: formatLowsLine_def formatLowsChunk_def)

text \<open>
  C5, as the spec has it: for every non-empty list of \<open>n\<close> items and every width \<open>w\<close> the
  line is \<open>n * w + (n - 1) * 3\<close> bytes long. At the single code 0 and width 3 the
  description \<open>"Sunny"\<close> is longer than the width, its chunk panics, and the description
  line returns no string.
\<close>

theorem line_width_counterexample:
  "[0 :: go_int] \<noteq> []
   \<and> formatWeatherCodeLine [0] 3 = Inl NegativeRepeatCount
   \<and> formatWeatherCodeLine [0] 3 = line (\<lambda>c. center (getWeatherDescriptionFromCode c) 3) [0]"
  by code_simp

text \<open>
  C5, amended: for every non-empty list of \<open>n\<close> items and width \<open>w\<close> such that the text of
  every item is at most \<open>w\<close> bytes long, the line of the centred texts is a string of
  exactly \<open>n * w + (n - 1) * 3\<close> bytes: the chunk of item \<open>i\<close> is the \<open>w\<close> bytes at offset
  \<open>i * (w + 3)\<close>, and the three bytes after each chunk but the last are \<open>" | "\<close>.
\<close>

theorem line_length:
  assumes "items \<noteq> []"
    and "\<forall>x \<in> set items. int (length (toText x)) \<le> sint width"
  shows "\<exists>s. line (\<lambda>x. center (toText x) width) items = Inr s
           \<and> length s = length items * nat (sint width) + (length items - 1) * 3
           \<and> (\<forall>i < length items.
                 center (toText (items ! i)) width
                   = Inr (take (nat (sint width)) (drop (i * (nat (sint width) + 3)) s)))
           \<and> (\<forall>i. Suc i < length items \<longrightarrow>
                 take 3 (drop (i * (nat (sint width) + 3) + nat (sint width)) s) = '' | '')"
proof -
  define w where "w = nat (sint width)"
  define g where "g = (\<lambda>x. replicate ((w - length (toText x)) div 2) CHR '' '' @ toText x
                @ replicate (w - length (toText x) - (w - length (toText x)) div 2) CHR '' '')"
  define cs where "cs = map g items"
  define s where "s = Join cs '' | ''"
  have chunk: "center (toText x) width = Inr (g x)" if "x \<in> set items" for x
    unfolding g_def w_def using assms(2) that by (intro center_fits) blast
  have lg: "length (g x) = w" if "x \<in> set items" for x
  proof -
    have "int (length (toText x)) \<le> sint width" using assms(2) that by blast
    then have "length (toText x) \<le> w" unfolding w_def by linarith
    then show ?thesis by (simp add: g_def)
  qed
  have lcs: "length c = w" if "c \<in> set cs" for c
    using that lg by (auto simp: cs_def)
  have ne: "cs \<noteq> []" using assms(1) by (simp add: cs_def)
  have n: "length cs = length items" by (simp add: cs_def)
  have "mapP (\<lambda>x. center (toText x) width) items = Inr cs"
    unfolding cs_def using chunk by (intro mapP_Inr) blast
  then have l: "line (\<lambda>x. center (toText x) width) items = Inr s"
    by (simp add: line_def andThen_def s_def)
  have len_s: "length s = length items * w + (length items - 1) * 3"
  proof -
    have "length (Join cs '' | '') = length cs * w + (length cs - 1) * length '' | ''"
      using ne lcs by (intro Join_length) simp_all
    then show ?thesis by (simp add: s_def n)
  qed
  have l3: "length '' | '' = 3" by simp
  have chunks: "center (toText (items ! i)) width = Inr (take w (drop (i * (w + 3)) s))"
    if "i < length items" for i
  proof -
    have "take w (drop (i * (w + length '' | '')) (Join cs '' | '')) = cs ! i"
      using that by (intro Join_chunk lcs) (simp_all add: n)
    then have "take w (drop (i * (w + 3)) s) = cs ! i"
      by (simp only: l3 s_def)
    moreover have "cs ! i = g (items ! i)" using that by (simp add: cs_def)
    ultimately show ?thesis using chunk [of "items ! i"] that by simp
  qed
  have seps: "take 3 (drop (i * (w + 3) + w) s) = '' | ''" if "Suc i < length items" for i
  proof -
    have "take (length '' | '') (drop (i * (w + length '' | '') + w) (Join cs '' | '')) = '' | ''"
      using that by (intro Join_separator lcs) (simp_all add: n)
    then show ?thesis by (simp only: l3 s_def)
  qed
  show ?thesis
    using l len_s chunks seps unfolding w_def by blast
qed

theorem line_length_witness:
  "[0, 99 :: go_int] \<noteq> []
   \<and> int (length (getWeatherDescriptionFromCode 0)) \<le> sint (25 :: go_int)
   \<and> int (length (getWeatherDescriptionFromCode 99)) \<le> sint (25 :: go_int)
   \<and> (\<exists>s. formatWeatherCodeLine [0, 99] 25 = Inr s
           \<and> length s = 2 * 25 + (2 - 1) * 3
           \<and> take 3 (drop 25 s) = '' | '')"
proof -
  have h1: "[0, 99 :: go_int] \<noteq> []" by simp
  have h2: "\<forall>x \<in> set [0, 99 :: go_int]. int (length (getWeatherDescriptionFromCode x)) \<le> sint (25 :: go_int)"
    by (simp add: getWeatherDescriptionFromCode_def)
  obtain s where s: "line (\<lambda>x. center (getWeatherDescriptionFromCode x) 25) [0, 99 :: go_int] = Inr s"
    "length s = length [0, 99 :: go_int] * nat (sint (25 :: go_int)) + (length [0, 99 :: go_int] - 1) * 3"
    "\<forall>i. Suc i < length [0, 99 :: go_int] \<longrightarrow>
        take 3 (drop (i * (nat (sint (25 :: go_int)) + 3) + nat (sint (25 :: go_int))) s) = '' | ''"
    using line_length [OF h1 h2] by blast
  have "take 3 (drop (0 * (nat (sint (25 :: go_int)) + 3) + nat (sint (25 :: go_int))) s) = '' | ''"
    using s(3) by (intro s(3) [rule_format]) simp
  then have "take 3 (drop 25 s) = '' | ''" by simp
  moreover have "length s = 2 * 25 + (2 - 1) * 3" using s(2) by simp
  ultimately have "\<exists>s. formatWeatherCodeLine [0, 99] 25 = Inr s
           \<and> length s = 2 * 25 + (2 - 1) * 3
           \<and> take 3 (drop 25 s) = '' | ''"
    using s(1) by (simp only: formatWeatherCodeLine_line) blast
  then show ?thesis using h1 h2 by simp
qed

section \<open>Claims about the weather code catalogue\<close>

text \<open>
  C6. \<open>getWeatherDescriptionFromCode\<close> returns \<open>"Sunny"\<close> for 0, \<open>"Cloudy"\<close> for 1, 2, 3,
  \<open>"Fog"\<close> for 45 and 48, \<open>"Rain"\<close> for 51, 53, 55, 56, 57, 61, 63, 65, 66, 67, 80, 81, 82,
  \<open>"Snow"\<close> for 71, 73, 75, 77, 85, 86, \<open>"Thunderstorm"\<close> for 95, 96, 99, and
  \<open>"Unknown weather code"\<close> for every other integer.
\<close>

theorem description_by_class:
  "getWeatherDescriptionFromCode 0 = ''Sunny''
   \<and> (\<forall>c \<in> {1, 2, 3}. getWeatherDescriptionFromCode c = ''Cloudy'')
   \<and> (\<forall>c \<in> {45, 48}. getWeatherDescriptionFromCode c = ''Fog'')
   \<and> (\<forall>c \<in> {51, 53, 55, 56, 57, 61, 63, 65, 66, 67, 80, 81, 82}.
         getWeatherDescriptionFromCode c = ''Rain'')
   \<and> (\<forall>c \<in> {71, 73, 75, 77, 85, 86}. getWeatherDescriptionFromCode c = ''Snow'')
   \<and> (\<forall>c \<in> {95, 96, 99}. getWeatherDescriptionFromCode c = ''Thunderstorm'')
   \<and> (\<forall>c. c \<notin> {0} \<union> {1, 2, 3} \<union> {45, 48}
               \<union> {51, 53, 55, 56, 57, 61, 63, 65, 66, 67, 80, 81, 82}
               \<union> {71, 73, 75, 77, 85, 86} \<union> {95, 96, 99}
         \<longrightarrow> getWeatherDescriptionFromCode c = ''Unknown weather code'')"
proof (intro conjI ballI allI impI)
  show "getWeatherDescriptionFromCode 0 = ''Sunny''"
    by (simp add: getWeatherDescriptionFromCode_def)
next
  fix c :: go_int assume "c \<in> {1, 2, 3}"
  then show "getWeatherDescriptionFromCode c = ''Cloudy''"
    by (auto simp: getWeatherDescriptionFromCode_def)
next
  fix c :: go_int assume "c \<in> {45, 48}"
  then show "getWeatherDescriptionFromCode c = ''Fog''"
    by (auto simp: getWeatherDescriptionFromCode_def)
next
  fix c :: go_int assume "c \<in> {51, 53, 55, 56, 57, 61, 63, 65, 66, 67, 80, 81, 82}"
  then show "getWeatherDescriptionFromCode c = ''Rain''"
    by (auto simp: getWeatherDescriptionFromCode_def)
next
  fix c :: go_int assume "c \<in> {71, 73, 75, 77, 85, 86}"
  then show "getWeatherDescriptionFromCode c = ''Snow''"
    by (auto simp: getWeatherDescriptionFromCode_def)
next
  fix c :: go_int assume "c \<in> {95, 96, 99}"
  then show "getWeatherDescriptionFromCode c = ''Thunderstorm''"
    by (auto simp: getWeatherDescriptionFromCode_def)
next
  fix c :: go_int
  assume "c \<notin> {0} \<union> {1, 2, 3} \<union> {45, 48}
               \<union> {51, 53, 55, 56, 57, 61, 63, 65, 66, 67, 80, 81, 82}
               \<union> {71, 73, 75, 77, 85, 86} \<union> {95, 96, 99}"
  then show "getWeatherDescriptionFromCode c = ''Unknown weather code''"
    by (simp add: getWeatherDescriptionFromCode_def)
qed

theorem description_by_class_witness:
  "getWeatherDescriptionFromCode 2 = ''Cloudy''
   \<and> getWeatherDescriptionFromCode 48 = ''Fog''
   \<and> getWeatherDescriptionFromCode 66 = ''Rain''
   \<and> getWeatherDescriptionFromCode 77 = ''Snow''
   \<and> getWeatherDescriptionFromCode 99 = ''Thunderstorm''
   \<and> getWeatherDescriptionFromCode 12 = ''Unknown weather code''
   \<and> getWeatherDescriptionFromCode (- 1) = ''Unknown weather code''
   \<and> getWeatherDescriptionFromCode 1000 = ''Unknown weather code''"
proof -
  note d = description_by_class
  have a: "getWeatherDescriptionFromCode 2 = ''Cloudy''"
    using d by (intro d [THEN conjunct2, THEN conjunct1, rule_format]) simp
  have b: "getWeatherDescriptionFromCode 48 = ''Fog''"
    by (intro d [THEN conjunct2, THEN conjunct2, THEN conjunct1, rule_format]) simp
  have c: "getWeatherDescriptionFromCode 66 = ''Rain''"
    by (intro d [THEN conjunct2, THEN conjunct2, THEN conjunct2, THEN conjunct1, rule_format]) simp
  have e: "getWeatherDescriptionFromCode 77 = ''Snow''"
    by (intro d [THEN conjunct2, THEN conjunct2, THEN conjunct2, THEN conjunct2, THEN conjunct1,
                 rule_format]) simp
  have f: "getWeatherDescriptionFromCode 99 = ''Thunderstorm''"
    by (intro d [THEN conjunct2, THEN conjunct2, THEN conjunct2, THEN conjunct2, THEN conjunct2,
                 THEN conjunct1, rule_format]) simp
  note u = d [THEN conjunct2, THEN conjunct2, THEN conjunct2, THEN conjunct2, THEN conjunct2,
              THEN conjunct2, rule_format]
  have g: "getWeatherDescriptionFromCode 12 = ''Unknown weather code''"
    by (intro u) simp
  have h: "getWeatherDescriptionFromCode (- 1) = ''Unknown weather code''"
    by (intro u) simp
  have i: "getWeatherDescriptionFromCode 1000 = ''Unknown weather code''"
    by (intro u) simp
  show ?thesis using a b c e f g h i by blast
qed

text \<open>
  C3. For every weather code outside the six classes, each of the three glyph rows is the
  text \<open>"Unknown weather code"\<close> with the declared width 1, and the glyph chunk pads with
  that declared width: \<open>(width - 1) / 2\<close> blanks on the left and \<open>width - 1 - (width - 1) / 2\<close>
  on the right, whatever the length of the text (20 bytes), so the chunk is
  \<open>width + 19\<close> bytes long.
\<close>

theorem unknown_code_glyph:
  assumes "code \<notin> {0} \<union> {1, 2, 3} \<union> {45, 48}
               \<union> {51, 53, 55, 56, 57, 61, 63, 65, 66, 67, 80, 81, 82}
               \<union> {71, 73, 75, 77, 85, 86} \<union> {95, 96, 99}"
  shows "getASCIILine1ForWeather R code = (''Unknown weather code'', 1)
       \<and> getASCIILine2ForWeather R code = (''Unknown weather code'', 1)
       \<and> getASCIILine3ForWeather R code = (''Unknown weather code'', 1)
       \<and> (\<forall>row \<in> {1, 2, 3}.
             formatASCIICodeChunk R code width row = pad ''Unknown weather code'' 1 width)
       \<and> (1 \<le> sint width \<longrightarrow> (\<forall>row \<in> {1, 2, 3}. \<exists>s.
             formatASCIICodeChunk R code width row = Inr s
             \<and> s = replicate (nat ((sint width - 1) div 2)) CHR '' ''
                      @ ''Unknown weather code''
                      @ replicate (nat (sint width - 1 - (sint width - 1) div 2)) CHR '' ''
             \<and> length s = nat (sint width) + 19))"
proof -
  have l1: "getASCIILine1ForWeather R code = (''Unknown weather code'', 1)"
    using assms by (simp add: getASCIILine1ForWeather_def)
  have l2: "getASCIILine2ForWeather R code = (''Unknown weather code'', 1)"
    using assms by (simp add: getASCIILine2ForWeather_def)
  have l3: "getASCIILine3ForWeather R code = (''Unknown weather code'', 1)"
    using assms by (simp add: getASCIILine3ForWeather_def)
  have chunk: "formatASCIICodeChunk R code width row = pad ''Unknown weather code'' 1 width"
    if "row \<in> {1, 2, 3}" for row
    using that by (auto simp: formatASCIICodeChunk_def l1 l2 l3)
  have fits: "pad ''Unknown weather code'' 1 width
                = Inr (replicate (nat ((sint width - 1) div 2)) CHR '' ''
                      @ ''Unknown weather code''
                      @ replicate (nat (sint width - 1 - (sint width - 1) div 2)) CHR '' '')"
    if "1 \<le> sint width"
    using pad_fits [of 1 width "''Unknown weather code''"] that by simp
  have long: "length (replicate (nat ((sint width - 1) div 2)) CHR '' ''
                      @ ''Unknown weather code''
                      @ replicate (nat (sint width - 1 - (sint width - 1) div 2)) CHR '' '')
                = nat (sint width) + 19"
    if "1 \<le> sint width"
  proof -
    have "nat ((sint width - 1) div 2) + nat (sint width - 1 - (sint width - 1) div 2)
            = nat (sint width) - 1"
      using that by linarith
    then show ?thesis using that by simp
  qed
  show ?thesis using l1 l2 l3 chunk fits long by simp
qed

theorem unknown_code_glyph_witness:
  "(12 :: go_int) \<notin> {0} \<union> {1, 2, 3} \<union> {45, 48}
               \<union> {51, 53, 55, 56, 57, 61, 63, 65, 66, 67, 80, 81, 82}
               \<union> {71, 73, 75, 77, 85, 86} \<union> {95, 96, 99}
   \<and> getASCIILine1ForWeather plainRendering 12 = (''Unknown weather code'', 1)
   \<and> getASCIILine2ForWeather plainRendering 12 = (''Unknown weather code'', 1)
   \<and> getASCIILine3ForWeather plainRendering 12 = (''Unknown weather code'', 1)
   \<and> 1 \<le> sint (25 :: go_int)
   \<and> formatASCIICodeChunk plainRendering 12 25 2
       = Inr (''            Unknown weather code            '')
   \<and> length (''            Unknown weather code            '') = 25 + 19"
proof -
  have h: "(12 :: go_int) \<notin> {0} \<union> {1, 2, 3} \<union> {45, 48}
               \<union> {51, 53, 55, 56, 57, 61, 63, 65, 66, 67, 80, 81, 82}
               \<union> {71, 73, 75, 77, 85, 86} \<union> {95, 96, 99}"
    by simp
  have w: "1 \<le> sint (25 :: go_int)" by simp
  note t = unknown_code_glyph [OF h, of plainRendering 25]
  have c: "formatASCIICodeChunk plainRendering 12 25 2
             = Inr (replicate (nat ((sint (25 :: go_int) - 1) div 2)) CHR '' ''
                      @ ''Unknown weather code''
                      @ replicate (nat (sint (25 :: go_int) - 1 - (sint (25 :: go_int) - 1) div 2)) CHR '' '')"
  proof -
    have "\<forall>row \<in> {1, 2, 3 :: go_int}. \<exists>s.
             formatASCIICodeChunk plainRendering 12 25 row = Inr s
             \<and> s = replicate (nat ((sint (25 :: go_int) - 1) div 2)) CHR '' ''
                      @ ''Unknown weather code''
                      @ replicate (nat (sint (25 :: go_int) - 1 - (sint (25 :: go_int) - 1) div 2)) CHR '' ''
             \<and> length s = nat (sint (25 :: go_int)) + 19"
      using t w by blast
    moreover have "(2 :: go_int) \<in> {1, 2, 3}" by simp
    ultimately show ?thesis by blast
  qed
  have r: "replicate 12 CHR '' '' = ''            ''" by (simp add: numeral_eq_Suc)
  have "formatASCIICodeChunk plainRendering 12 25 2
       = Inr (''            Unknown weather code            '')"
    unfolding c by (simp add: r)
  moreover have "getASCIILine1ForWeather plainRendering 12 = (''Unknown weather code'', 1)
      \<and> getASCIILine2ForWeather plainRendering 12 = (''Unknown weather code'', 1)
      \<and> getASCIILine3ForWeather plainRendering 12 = (''Unknown weather code'', 1)"
    using t by blast
  ultimately show ?thesis using h w by simp
qed

section \<open>Decimal digits\<close>

lemma digit_chars:
  "char_of (48 :: nat) = CHR ''0''" "char_of (49 :: nat) = CHR ''1''"
  "char_of (50 :: nat) = CHR ''2''" "char_of (51 :: nat) = CHR ''3''"
  "char_of (52 :: nat) = CHR ''4''" "char_of (53 :: nat) = CHR ''5''"
  "char_of (54 :: nat) = CHR ''6''" "char_of (55 :: nat) = CHR ''7''"
  "char_of (56 :: nat) = CHR ''8''" "char_of (57 :: nat) = CHR ''9''"
  by code_simp+

lemmas Sprintf_eval = Sprintf_f0_def roundHalfEven_def Let_def itoa.simps digit_chars

section \<open>Claims about the temperature rows\<close>

lemma roundHalfEven_nearest:
  "\<bar>real m / 2 ^ k - real (roundHalfEven m k)\<bar> \<le> 1 / 2
   \<and> (\<bar>real m / 2 ^ k - real (roundHalfEven m k)\<bar> = 1 / 2 \<longrightarrow> even (roundHalfEven m k))"
proof -
  define P :: nat where "P = 2 ^ k"
  define q where "q = m div P"
  define r where "r = m mod P"
  define x where "x = real r / real P"
  have Ppos: "0 < P" by (simp add: P_def)
  have rP: "r < P" using Ppos by (simp add: r_def)
  have m: "m = q * P + r" by (simp add: q_def r_def)
  have val: "real m / real P = real q + x"
    using Ppos by (simp add: m add_divide_distrib x_def)
  have frac_lt: "x < 1 / 2" if "2 * r < P"
  proof -
    have "2 * real r < real P" using that by (metis of_nat_less_iff of_nat_mult of_nat_numeral)
    then show ?thesis using Ppos by (simp add: field_simps x_def)
  qed
  have frac_gt: "1 / 2 < x" if "P < 2 * r"
  proof -
    have "real P < 2 * real r" using that by (metis of_nat_less_iff of_nat_mult of_nat_numeral)
    then show ?thesis using Ppos by (simp add: field_simps x_def)
  qed
  have frac_eq: "x = 1 / 2" if "2 * r = P"
  proof -
    have "2 * real r = real P" using that by (metis of_nat_mult of_nat_numeral)
    then show ?thesis using Ppos by (simp add: field_simps x_def)
  qed
  have frac_le: "x < 1" using rP Ppos by (simp add: x_def)
  have frac_ge: "0 \<le> x" by (simp add: x_def)
  have P2: "(2 :: real) ^ k = real P" by (simp add: P_def)
  consider (lo) "2 * r < P" | (hi) "P < 2 * r" | (tie) "2 * r = P" by linarith
  then show ?thesis
  proof cases
    case lo
    then have n: "roundHalfEven m k = q"
      by (simp add: roundHalfEven_def Let_def P_def q_def r_def)
    have "\<bar>real q + x - real q\<bar> < 1 / 2" using frac_lt [OF lo] frac_ge by simp
    then show ?thesis unfolding n P2 val by simp
  next
    case hi
    then have n: "roundHalfEven m k = q + 1"
      by (simp add: roundHalfEven_def Let_def P_def q_def r_def)
    have "\<bar>real q + x - real (q + 1)\<bar> < 1 / 2" using frac_gt [OF hi] frac_le by simp
    then show ?thesis unfolding n P2 val by simp
  next
    case tie
    then have n: "roundHalfEven m k = (if even q then q else q + 1)"
      by (simp add: roundHalfEven_def Let_def P_def q_def r_def)
    have half: "x = 1 / 2" by (rule frac_eq [OF tie])
    show ?thesis
    proof (cases "even q")
      case True
      then show ?thesis unfolding n P2 val half by simp
    next
      case False
      then show ?thesis unfolding n P2 val half by simp
    qed
  qed
qed

lemma decimalValue_snoc:
  "decimalValue (ds @ [c]) = 10 * decimalValue ds + (of_char c - 48)"
  by (simp add: decimalValue_def)

lemma digit_char_cases:
  fixes d :: nat
  assumes "d < 10"
  shows "decimalDigit (char_of (48 + d))"
    and "(of_char (char_of (48 + d)) :: nat) - 48 = d"
    and "char_of (48 + d) = CHR ''0'' \<longleftrightarrow> d = 0"
proof -
  have "d = 0 \<or> d = 1 \<or> d = 2 \<or> d = 3 \<or> d = 4 \<or> d = 5 \<or> d = 6 \<or> d = 7 \<or> d = 8 \<or> d = 9"
    using assms by arith
  then show "decimalDigit (char_of (48 + d))"
    unfolding decimalDigit_def by (elim disjE) (simp_all add: digit_chars)
  show "(of_char (char_of (48 + d)) :: nat) - 48 = d" using assms by simp
  show "char_of (48 + d) = CHR ''0'' \<longleftrightarrow> d = 0"
  proof
    assume "char_of (48 + d) = CHR ''0''"
    then have "(of_char (char_of (48 + d)) :: nat) = of_char CHR ''0''" by simp
    then show "d = 0" using assms by simp
  next
    assume "d = 0"
    then show "char_of (48 + d) = CHR ''0''" by (simp add: digit_chars)
  qed
qed

lemma itoa_digits:
  "itoa n \<noteq> [] \<and> list_all decimalDigit (itoa n) \<and> decimalValue (itoa n) = n
   \<and> (0 < n \<longrightarrow> hd (itoa n) \<noteq> CHR ''0'')"
proof (induction n rule: itoa.induct)
  case (1 n)
  show ?case
  proof (cases "n < 10")
    case True
    then have i: "itoa n = [char_of (48 + n)]" by (simp add: itoa.simps)
    have a: "list_all decimalDigit (itoa n)"
      unfolding i using digit_char_cases(1) [OF True] by simp
    have b: "decimalValue (itoa n) = n"
      unfolding i decimalValue_def using digit_char_cases(2) [OF True] by simp
    have c: "0 < n \<longrightarrow> hd (itoa n) \<noteq> CHR ''0''"
      unfolding i using digit_char_cases(3) [OF True] by simp
    show ?thesis using a b c by (simp add: i)
  next
    case False
    then have i: "itoa n = itoa (n div 10) @ [char_of (48 + n mod 10)]"
      by (subst itoa.simps) simp
    have d: "n mod 10 < 10" by simp
    have pos: "0 < n div 10" using False by simp
    note ih = "1.IH" [OF False]
    have a: "list_all decimalDigit (itoa n)"
      unfolding i using ih digit_char_cases(1) [OF d] by simp
    have "decimalValue (itoa n) = 10 * (n div 10) + n mod 10"
      unfolding i decimalValue_snoc using ih digit_char_cases(2) [OF d] by simp
    then have v: "decimalValue (itoa n) = n" by simp
    have h: "hd (itoa n) = hd (itoa (n div 10))" unfolding i using ih by simp
    have c: "hd (itoa n) \<noteq> CHR ''0''" unfolding h using ih pos by simp
    show ?thesis using a v c by (simp add: i)
  qed
qed

lemma itoa_isDecimal: "isDecimal (itoa n)"
proof (cases "n = 0")
  case True
  then show ?thesis by (simp add: isDecimal_def itoa.simps digit_chars decimalDigit_def)
next
  case False
  then show ?thesis using itoa_digits [of n] by (simp add: isDecimal_def)
qed

lemma Sprintf_f0_Finite:
  "\<exists>ds. Sprintf_f0 (Finite s m e) = (if s then ''-'' else []) @ ds
        \<and> isDecimal ds
        \<and> \<bar>\<bar>valueOf (Finite s m e)\<bar> - real (decimalValue ds)\<bar> \<le> 1 / 2
        \<and> (\<bar>\<bar>valueOf (Finite s m e)\<bar> - real (decimalValue ds)\<bar> = 1 / 2
             \<longrightarrow> even (decimalValue ds))"
proof (cases "0 \<le> e")
  case True
  define n where "n = m * 2 ^ nat e"
  have "\<bar>valueOf (Finite s m e)\<bar> = real n"
    using True by (simp add: valueOf_def n_def abs_mult)
  moreover have "Sprintf_f0 (Finite s m e) = (if s then ''-'' else []) @ itoa n"
    using True by (simp add: Sprintf_f0_def n_def)
  ultimately show ?thesis
    using itoa_isDecimal [of n] itoa_digits [of n] by (intro exI [of _ "itoa n"]) simp
next
  case False
  define n where "n = roundHalfEven m (nat (- e))"
  have "\<bar>valueOf (Finite s m e)\<bar> = real m / 2 ^ nat (- e)"
    using False by (simp add: valueOf_def abs_mult)
  moreover have "Sprintf_f0 (Finite s m e) = (if s then ''-'' else []) @ itoa n"
    using False by (simp add: Sprintf_f0_def n_def)
  ultimately show ?thesis
    using itoa_isDecimal [of n] itoa_digits [of n] roundHalfEven_nearest [of m "nat (- e)"]
    by (intro exI [of _ "itoa n"]) (simp add: n_def)
qed


text \<open>
  C8, as the spec has it: the text after \<open>"High "\<close> or \<open>"Low "\<close> is the temperature rounded
  to the nearest integer. The temperature \<open>-0.375\<close> is within one half of 0 and of no
  other integer, and the code prints \<open>"Low -0"\<close> and \<open>"High -0"\<close> for it, not \<open>"Low 0"\<close>
  and \<open>"High 0"\<close>.
\<close>

theorem temperature_text_counterexample:
  "valueOf (Finite True 3 (- 3)) = - 0.375
   \<and> \<bar>valueOf (Finite True 3 (- 3)) - 0\<bar> \<le> 1 / 2
   \<and> formatLowsChunk (Finite True 3 (- 3)) 25 = Inr ''         Low -0          ''
   \<and> formatLowsChunk (Finite True 3 (- 3)) 25 \<noteq> center ''Low 0'' 25
   \<and> formatHighsChunk (Finite True 3 (- 3)) 25 = Inr ''         High -0         ''
   \<and> formatHighsChunk (Finite True 3 (- 3)) 25 \<noteq> center ''High 0'' 25"
proof -
  have v: "valueOf (Finite True 3 (- 3)) = - 0.375" by (simp add: valueOf_def)
  have t: "Sprintf_f0 (Finite True 3 (- 3)) = ''-0''" by (simp add: Sprintf_eval)
  have l: "center ''Low -0'' 25 = Inr ''         Low -0          ''" by code_simp
  have l0: "center ''Low 0'' 25 = Inr ''          Low 0          ''" by code_simp
  have h: "center ''High -0'' 25 = Inr ''         High -0         ''" by code_simp
  have h0: "center ''High 0'' 25 = Inr ''         High 0          ''" by code_simp
  show ?thesis
    unfolding formatLowsChunk_def formatHighsChunk_def t v using l l0 h h0 by simp
qed

text \<open>
  C8, amended: for every finite temperature the text that the high chunk centres, at any
  width, is \<open>"High "\<close> and the text that the low chunk centres is \<open>"Low "\<close>, followed by a minus sign when the sign of the value is
  negative (also when the value rounds to zero, which prints \<open>-0\<close>) and by the decimal
  numeral of the magnitude rounded to the nearest integer, to the even one when the
  magnitude is half way between two integers.
\<close>

theorem temperature_text:
  "\<exists>ds. (\<forall>width. formatHighsChunk (Finite s m e) width
                   = center (''High '' @ (if s then ''-'' else []) @ ds) width)
        \<and> (\<forall>width. formatLowsChunk (Finite s m e) width
                   = center (''Low '' @ (if s then ''-'' else []) @ ds) width)
        \<and> isDecimal ds
        \<and> \<bar>\<bar>valueOf (Finite s m e)\<bar> - real (decimalValue ds)\<bar> \<le> 1 / 2
        \<and> (\<bar>\<bar>valueOf (Finite s m e)\<bar> - real (decimalValue ds)\<bar> = 1 / 2
             \<longrightarrow> even (decimalValue ds))"
proof -
  obtain ds where "Sprintf_f0 (Finite s m e) = (if s then ''-'' else []) @ ds"
    and "isDecimal ds"
    and "\<bar>\<bar>valueOf (Finite s m e)\<bar> - real (decimalValue ds)\<bar> \<le> 1 / 2"
    and "\<bar>\<bar>valueOf (Finite s m e)\<bar> - real (decimalValue ds)\<bar> = 1 / 2
           \<longrightarrow> even (decimalValue ds)"
    using Sprintf_f0_Finite [of s m e] by blast
  then show ?thesis
    unfolding formatHighsChunk_def formatLowsChunk_def by (intro exI [of _ ds]) simp
qed

theorem temperature_text_witness:
  "valueOf (Finite False 5 (- 1)) = 2.5
   \<and> (\<exists>ds. formatHighsChunk (Finite False 5 (- 1)) 25 = center (''High '' @ ds) 25
          \<and> formatLowsChunk (Finite False 5 (- 1)) 25 = center (''Low '' @ ds) 25
          \<and> isDecimal ds \<and> decimalValue ds = 2)
   \<and> formatHighsChunk (Finite False 5 (- 1)) 25 = Inr ''         High 2          ''"
proof -
  have v: "valueOf (Finite False 5 (- 1)) = 2.5" by (simp add: valueOf_def)
  obtain ds where hi: "\<forall>width. formatHighsChunk (Finite False 5 (- 1)) width
          = center (''High '' @ (if False then ''-'' else []) @ ds) width"
    and lo: "\<forall>width. formatLowsChunk (Finite False 5 (- 1)) width
          = center (''Low '' @ (if False then ''-'' else []) @ ds) width"
    and dec: "isDecimal ds"
    and near: "\<bar>\<bar>valueOf (Finite False 5 (- 1))\<bar> - real (decimalValue ds)\<bar> \<le> 1 / 2"
    and tie: "\<bar>\<bar>valueOf (Finite False 5 (- 1))\<bar> - real (decimalValue ds)\<bar> = 1 / 2
           \<longrightarrow> even (decimalValue ds)"
    using temperature_text [of False 5 "- 1"] by blast
  define n where "n = decimalValue ds"
  have "\<bar>2.5 - real n\<bar> \<le> 1 / 2" using near by (simp add: v n_def)
  then have "2 \<le> real n" "real n \<le> 3" by linarith+
  then have "2 \<le> n" "n \<le> 3" by simp_all
  then have c: "n = 2 \<or> n = 3" by linarith
  have "\<bar>2.5 - real n\<bar> = 1 / 2 \<longrightarrow> even n" using tie by (simp add: v n_def)
  then have n2: "n = 2" using c by auto
  have t: "Sprintf_f0 (Finite False 5 (- 1)) = ''2''" by (simp add: Sprintf_eval)
  have h: "center ''High 2'' 25 = Inr ''         High 2          ''" by code_simp
  have f: "formatHighsChunk (Finite False 5 (- 1)) 25 = Inr ''         High 2          ''"
    unfolding formatHighsChunk_def t using h by simp
  have hi': "formatHighsChunk (Finite False 5 (- 1)) 25 = center (''High '' @ ds) 25"
    using hi by simp
  have lo': "formatLowsChunk (Finite False 5 (- 1)) 25 = center (''Low '' @ ds) 25"
    using lo by simp
  have d2: "decimalValue ds = 2" using n2 by (simp add: n_def)
  have ex: "\<exists>ds. formatHighsChunk (Finite False 5 (- 1)) 25 = center (''High '' @ ds) 25
          \<and> formatLowsChunk (Finite False 5 (- 1)) 25 = center (''Low '' @ ds) 25
          \<and> isDecimal ds \<and> decimalValue ds = 2"
    using hi' lo' dec d2 by blast
  show ?thesis using v ex f by blast
qed

section \<open>Claims about dates\<close>

lemma digit_char_of: "n < 10 \<Longrightarrow> digit (char_of (48 + n)) = n"
  by (simp add: digit_def)

lemma isDigit_char_of: "(n :: nat) < 10 \<Longrightarrow> 48 \<le> (of_char (char_of (48 + n)) :: nat) \<and> (of_char (char_of (48 + n)) :: nat) \<le> 57"
  by simp

lemma char_of_digit:
  assumes "48 \<le> (of_char c :: nat)" "(of_char c :: nat) \<le> 57"
  shows "char_of (48 + digit c) = c" and "digit c < 10"
  using assms by (simp_all add: digit_def)

lemma getnum_digits2:
  assumes "n \<le> 99"
  shows "getnum (digits2 n @ r) = Some (n, r)"
proof -
  have a: "n div 10 < 10" and b: "n mod 10 < 10" using assms by simp_all
  have "digit (char_of (48 + n div 10)) * 10 + digit (char_of (48 + n mod 10)) = n"
    by (simp only: digit_char_of [OF a] digit_char_of [OF b]) simp
  then show ?thesis
    using isDigit_char_of [OF a] isDigit_char_of [OF b]
    by (simp add: getnum_def digits2_def isDigit_def)
qed

lemma getnum_Some:
  assumes "getnum s = Some (n, r)"
  shows "s = digits2 n @ r \<and> n \<le> 99"
proof -
  have d0: "isDigit s 0" and d1: "isDigit s 1"
    and n: "n = digit (s ! 0) * 10 + digit (s ! 1)" and r: "r = drop 2 s"
    using assms by (auto simp: getnum_def split: if_splits)
  from d1 have "2 \<le> length s" by (simp add: isDigit_def)
  then obtain a b where s: "s = a # b # r"
    using r by (cases s; cases "tl s") auto
  have da: "48 \<le> (of_char a :: nat)" "(of_char a :: nat) \<le> 57"
    using d0 by (simp_all add: isDigit_def s)
  have db: "48 \<le> (of_char b :: nat)" "(of_char b :: nat) \<le> 57"
    using d1 by (simp_all add: isDigit_def s)
  have n': "n = digit a * 10 + digit b" using n by (simp add: s)
  have la: "digit a < 10" and lb: "digit b < 10"
    using char_of_digit(2) da db by blast+
  have "n div 10 = digit a" "n mod 10 = digit b" using la lb by (simp_all add: n')
  then have "digits2 n = [a, b]"
    using char_of_digit(1) [OF da] char_of_digit(1) [OF db] by (simp add: digits2_def)
  moreover have "n \<le> 99" using la lb by (simp add: n')
  ultimately show ?thesis by (simp add: s)
qed

lemma div_base: "(r :: nat) < k \<Longrightarrow> (q * k + r) div k = q"
  by simp

lemma mod_base: "(r :: nat) < k \<Longrightarrow> (q * k + r) mod k = r"
  by simp

lemma getYear_digits4:
  assumes "y \<le> 9999"
  shows "getYear (digits4 y @ r) = Some (y, r)"
proof -
  define a where "a = y div 100 div 10"
  define b where "b = y div 100 mod 10"
  define c where "c = y mod 100 div 10"
  define d where "d = y mod 100 mod 10"
  have lt: "a < 10" "b < 10" "c < 10" "d < 10"
    using assms by (simp_all add: a_def b_def c_def d_def)
  have y: "a * 1000 + b * 100 + c * 10 + d = y"
  proof -
    have "y = y div 100 * 100 + y mod 100" by simp
    moreover have "y div 100 = a * 10 + b" by (simp add: a_def b_def)
    moreover have "y mod 100 = c * 10 + d" by (simp add: c_def d_def)
    ultimately show ?thesis by linarith
  qed
  have s: "digits4 y @ r
             = char_of (48 + a) # char_of (48 + b) # char_of (48 + c) # char_of (48 + d) # r"
    by (simp add: digits4_def digits2_def a_def b_def c_def d_def)
  have dg: "isDigit (digits4 y @ r) 0" "isDigit (digits4 y @ r) 1"
    "isDigit (digits4 y @ r) 2" "isDigit (digits4 y @ r) 3"
    unfolding s isDigit_def
    using isDigit_char_of [OF lt(1)] isDigit_char_of [OF lt(2)]
      isDigit_char_of [OF lt(3)] isDigit_char_of [OF lt(4)]
    by (simp_all add: numeral_2_eq_2 numeral_3_eq_3)
  have v: "digit ((digits4 y @ r) ! 0) * 1000 + digit ((digits4 y @ r) ! 1) * 100
             + digit ((digits4 y @ r) ! 2) * 10 + digit ((digits4 y @ r) ! 3) = y"
    unfolding s
    by (simp add: numeral_2_eq_2 numeral_3_eq_3 digit_char_of [OF lt(1)] digit_char_of [OF lt(2)]
          digit_char_of [OF lt(3)] digit_char_of [OF lt(4)] y del: of_char_of)
  have l: "\<not> length (digits4 y @ r) < 4" and dr: "drop 4 (digits4 y @ r) = r"
    by (simp_all add: s)
  show ?thesis
    unfolding getYear_def using dg l by (simp only: v dr) simp
qed

lemma getYear_Some:
  assumes "getYear s = Some (y, r)"
  shows "s = digits4 y @ r \<and> y \<le> 9999"
proof -
  have l: "4 \<le> length s" and d0: "isDigit s 0" and d1: "isDigit s 1"
    and d2: "isDigit s 2" and d3: "isDigit s 3"
    and y: "y = digit (s ! 0) * 1000 + digit (s ! 1) * 100 + digit (s ! 2) * 10 + digit (s ! 3)"
    and r: "r = drop 4 s"
    using assms by (auto simp: getYear_def split: if_splits)
  obtain a b c d where s: "s = a # b # c # d # r"
    using l r by (cases s; cases "tl s"; cases "tl (tl s)"; cases "tl (tl (tl s))") auto
  have da: "48 \<le> (of_char a :: nat)" "(of_char a :: nat) \<le> 57"
    using d0 by (simp_all add: isDigit_def s)
  have db: "48 \<le> (of_char b :: nat)" "(of_char b :: nat) \<le> 57"
    using d1 by (simp_all add: isDigit_def s)
  have dc: "48 \<le> (of_char c :: nat)" "(of_char c :: nat) \<le> 57"
    using d2 by (simp_all add: isDigit_def s numeral_2_eq_2)
  have dd: "48 \<le> (of_char d :: nat)" "(of_char d :: nat) \<le> 57"
    using d3 by (simp_all add: isDigit_def s numeral_3_eq_3)
  have y': "y = digit a * 1000 + digit b * 100 + digit c * 10 + digit d"
    using y by (simp add: s numeral_2_eq_2 numeral_3_eq_3)
  have lt: "digit a < 10" "digit b < 10" "digit c < 10" "digit d < 10"
    using char_of_digit(2) da db dc dd by blast+
  have y2: "y = (digit a * 10 + digit b) * 100 + (digit c * 10 + digit d)"
    by (simp add: y')
  have small: "digit c * 10 + digit d < 100" using lt by linarith
  have q: "y div 100 = digit a * 10 + digit b" "y mod 100 = digit c * 10 + digit d"
    unfolding y2 using small by (rule div_base mod_base)+
  have "y div 100 div 10 = digit a" "y div 100 mod 10 = digit b"
    "y mod 100 div 10 = digit c" "y mod 100 mod 10 = digit d"
    using lt unfolding q by simp_all
  then have "digits4 y = [a, b, c, d]"
    using char_of_digit(1) [OF da] char_of_digit(1) [OF db]
      char_of_digit(1) [OF dc] char_of_digit(1) [OF dd]
    by (simp add: digits4_def digits2_def)
  moreover have "y \<le> 9999" using lt unfolding y' by linarith
  ultimately show ?thesis by (simp add: s)
qed

lemma skip_Some: "skip s = Some r \<longleftrightarrow> s = CHR ''-'' # r"
  by (auto simp: skip_def split: list.splits if_splits)

lemma isLeap_leapYear: "isLeap y = leapYear y"
  by (simp add: isLeap_def leapYear_def dvd_eq_mod_eq_0)

lemma month_cases:
  fixes m :: nat
  assumes "1 \<le> m" "m \<le> 12"
  shows "m = 1 \<or> m = 2 \<or> m = 3 \<or> m = 4 \<or> m = 5 \<or> m = 6 \<or> m = 7 \<or> m = 8 \<or> m = 9
         \<or> m = 10 \<or> m = 11 \<or> m = 12"
  using assms by arith

lemma daysIn_monthLength:
  assumes "1 \<le> m" "m \<le> 12"
  shows "daysIn m y = monthLength y m"
  using month_cases [OF assms]
  by (elim disjE) (simp_all add: daysIn_def monthLength_def isLeap_leapYear)

lemma monthLength_bounds:
  assumes "1 \<le> m" "m \<le> 12"
  shows "28 \<le> monthLength y m \<and> monthLength y m \<le> 31"
  using month_cases [OF assms]
  by (elim disjE) (simp_all add: monthLength_def)

lemma Parse_isoDate:
  assumes "calendarDate t"
  shows "Parse (isoDate t) = Some t"
proof -
  have y: "year t \<le> 9999" and m1: "1 \<le> month t" and m12: "month t \<le> 12"
    and d1: "1 \<le> day t" and dl: "day t \<le> monthLength (year t) (month t)"
    using assms by (auto simp: calendarDate_def properDay_def)
  have m: "month t \<le> 99" "\<not> (month t = 0 \<or> 12 < month t)" using m1 m12 by auto
  have len: "daysIn (month t) (year t) = monthLength (year t) (month t)"
    by (rule daysIn_monthLength [OF m1 m12])
  have d: "\<not> (day t < 1 \<or> daysIn (month t) (year t) < day t)"
    using d1 dl by (simp add: len)
  have d99: "day t \<le> 99" using dl monthLength_bounds [OF m1 m12, of "year t"] by linarith
  have 1: "getYear (isoDate t) = Some (year t, CHR ''-'' # digits2 (month t) @ CHR ''-'' # digits2 (day t))"
    unfolding isoDate_def using getYear_digits4 [OF y] by simp
  have 2: "getnum (digits2 (month t) @ CHR ''-'' # digits2 (day t))
             = Some (month t, CHR ''-'' # digits2 (day t))"
    by (rule getnum_digits2 [OF m(1)])
  have 3: "getnum (digits2 (day t)) = Some (day t, [])"
    using getnum_digits2 [OF d99, of "[]"] by simp
  show ?thesis
    unfolding Parse_def 1 using m(2) d by (simp add: skip_def 2 3)
qed

lemma Parse_Some:
  assumes "Parse s = Some t"
  shows "calendarDate t \<and> s = isoDate t"
proof -
  obtain y s1 s2 m s3 s4 d where
    1: "getYear s = Some (y, s1)" and 2: "skip s1 = Some s2"
    and 3: "getnum s2 = Some (m, s3)" and mr: "\<not> (m = 0 \<or> 12 < m)"
    and 4: "skip s3 = Some s4" and 5: "getnum s4 = Some (d, [])"
    and dr: "\<not> (d < 1 \<or> daysIn m y < d)" and t: "t = \<lparr>year = y, month = m, day = d\<rparr>"
    using assms unfolding Parse_def
    by (auto split: option.splits prod.splits if_splits)
  have m: "1 \<le> m" "m \<le> 12" using mr by auto
  have dl: "1 \<le> d" "d \<le> monthLength y m"
    using dr daysIn_monthLength [OF m, of y] by auto
  have "s = digits4 y @ s1" "y \<le> 9999" using getYear_Some [OF 1] by simp_all
  moreover have "s1 = CHR ''-'' # s2" using 2 by (simp add: skip_Some)
  moreover have "s2 = digits2 m @ s3" using getnum_Some [OF 3] by simp
  moreover have "s3 = CHR ''-'' # s4" using 4 by (simp add: skip_Some)
  moreover have "s4 = digits2 d" using getnum_Some [OF 5] by simp
  ultimately show ?thesis
    using m dl by (simp add: calendarDate_def properDay_def isoDate_def t)
qed

lemma Parse_None:
  assumes "\<forall>t. calendarDate t \<longrightarrow> s \<noteq> isoDate t"
  shows "Parse s = None"
proof (cases "Parse s")
  case None
  then show ?thesis .
next
  case (Some t)
  then show ?thesis using Parse_Some [OF Some] assms by blast
qed

lemma Weekday_less: "Weekday t < 7"
  unfolding Weekday_def by simp

subsection \<open>The day after\<close>

lemma daysBefore_Suc:
  assumes "1 \<le> m"
  shows "daysBefore (Suc m) y = daysBefore m y + daysIn m y"
proof -
  have "[1..<Suc m] = [1..<m] @ [m]" using assms by simp
  then show ?thesis by (simp add: daysBefore_def)
qed

lemma daysBefore_1: "daysBefore (Suc 0) y = 0"
  by (simp add: daysBefore_def)

lemma upt_1_13: "[1..<13] = [1, 2, 3, 4, 5, 6, 7, 8, 9, 10, 11, 12 :: nat]"
  by code_simp

lemma daysBefore_13: "daysBefore 13 y = 365 + (if leapYear y then 1 else 0)"
  unfolding daysBefore_def upt_1_13 by (simp add: daysIn_def isLeap_leapYear)

lemma div_step:
  fixes k n :: int
  assumes "0 < n"
  shows "k div n = (k - 1) div n + (if n dvd k then 1 else 0)"
proof (cases "n dvd k")
  case True
  then obtain q where k: "k = n * q" by (auto simp: dvd_def)
  have "k - 1 = n * (q - 1) + (n - 1)" by (simp add: k algebra_simps)
  then have "(k - 1) div n = q - 1"
    using assms by (intro int_div_pos_eq [of _ _ _ "n - 1"]) simp_all
  moreover have "k div n = q" using assms by (simp add: k)
  ultimately show ?thesis using True by simp
next
  case False
  define r where "r = k mod n"
  have "0 \<le> r" "r \<noteq> 0" using assms False by (simp_all add: r_def dvd_eq_mod_eq_0)
  then have "0 < r" by linarith
  moreover have "r < n" using assms by (simp add: r_def)
  ultimately have r: "0 < r" "r < n" .
  have "k = n * (k div n) + r" by (simp add: r_def)
  then have "k - 1 = n * (k div n) + (r - 1)" by simp
  then have "(k - 1) div n = k div n"
    using r by (intro int_div_pos_eq [of _ _ _ "r - 1"]) simp_all
  then show ?thesis using False by simp
qed

lemma year_step:
  fixes y :: nat
  shows "365 * int y + int y div 4 - int y div 100 + int y div 400
           = 365 * (int y - 1) + (int y - 1) div 4 - (int y - 1) div 100 + (int y - 1) div 400
             + 365 + (if leapYear y then 1 else 0)"
proof -
  have a: "int y div 4 = (int y - 1) div 4 + (if 4 dvd y then 1 else 0)"
    using div_step [of 4 "int y"] by (simp add: int_dvd_int_iff [symmetric] del: int_dvd_int_iff)
  have b: "int y div 100 = (int y - 1) div 100 + (if 100 dvd y then 1 else 0)"
    using div_step [of 100 "int y"] by (simp add: int_dvd_int_iff [symmetric] del: int_dvd_int_iff)
  have c: "int y div 400 = (int y - 1) div 400 + (if 400 dvd y then 1 else 0)"
    using div_step [of 400 "int y"] by (simp add: int_dvd_int_iff [symmetric] del: int_dvd_int_iff)
  have d1: "100 dvd y \<Longrightarrow> 4 dvd y" by (rule dvd_trans [of 4 100]) simp_all
  have d2: "400 dvd y \<Longrightarrow> 100 dvd y" by (rule dvd_trans [of 100 400]) simp_all
  show ?thesis unfolding a b c using d1 d2 by (auto simp: leapYear_def)
qed

lemma properDay_nextDay:
  assumes "properDay t"
  shows "properDay (nextDay t)"
proof -
  have m: "1 \<le> month t" "month t \<le> 12" and d: "1 \<le> day t"
    using assms by (simp_all add: properDay_def)
  show ?thesis
  proof (cases "day t < monthLength (year t) (month t)")
    case True
    then show ?thesis using m by (simp add: nextDay_def properDay_def)
  next
    case False
    show ?thesis
    proof (cases "month t < 12")
      case True
      have "28 \<le> monthLength (year t) (month t + 1)"
        using monthLength_bounds [of "month t + 1" "year t"] True by simp
      then show ?thesis using False True by (simp add: nextDay_def properDay_def)
    next
      case F: False
      then show ?thesis using False by (simp add: nextDay_def properDay_def monthLength_def)
    qed
  qed
qed

lemma dayNumber_nextDay:
  assumes "properDay t"
  shows "dayNumber (nextDay t) = dayNumber t + 1"
proof -
  have m: "1 \<le> month t" "month t \<le> 12" and d: "1 \<le> day t"
    and dl: "day t \<le> monthLength (year t) (month t)"
    using assms by (simp_all add: properDay_def)
  have len: "daysIn (month t) (year t) = monthLength (year t) (month t)"
    by (rule daysIn_monthLength [OF m])
  show ?thesis
  proof (cases "day t < monthLength (year t) (month t)")
    case True
    then show ?thesis by (simp add: nextDay_def dayNumber_def Let_def)
  next
    case False
    then have last: "day t = monthLength (year t) (month t)" using dl by simp
    show ?thesis
    proof (cases "month t < 12")
      case True
      have "daysBefore (month t + 1) (year t) = daysBefore (month t) (year t) + day t"
        using daysBefore_Suc [OF m(1), of "year t"] by (simp add: len last)
      then show ?thesis using False True by (simp add: nextDay_def dayNumber_def Let_def)
    next
      case F: False
      then have m12: "month t = 12" using m by simp
      have d31: "day t = 31" using last by (simp add: m12 monthLength_def)
      have "daysBefore 13 (year t) = daysBefore 12 (year t) + 31"
        using daysBefore_Suc [of 12 "year t"] by (simp add: daysIn_def)
      then have "daysBefore 12 (year t) + 31 = 365 + (if leapYear (year t) then 1 else 0)"
        by (simp only: daysBefore_13)
      then have before: "int (daysBefore 12 (year t)) = 334 + (if leapYear (year t) then 1 else 0)"
        by (cases "leapYear (year t)") simp_all
      have n: "nextDay t = \<lparr>year = year t + 1, month = 1, day = 1\<rparr>"
        using False F by (simp add: nextDay_def)
      have new: "dayNumber (nextDay t)
                   = 365 * int (year t) + int (year t) div 4 - int (year t) div 100
                     + int (year t) div 400"
        unfolding n by (simp add: dayNumber_def Let_def daysBefore_1)
      have old: "dayNumber t
                   = 365 * (int (year t) - 1) + (int (year t) - 1) div 4
                     - (int (year t) - 1) div 100 + (int (year t) - 1) div 400
                     + (334 + (if leapYear (year t) then 1 else 0)) + 31 - 1"
        by (simp add: dayNumber_def Let_def m12 d31 before)
      show ?thesis unfolding new old year_step [of "year t"] by simp
    qed
  qed
qed

lemma Weekday_nextDay:
  assumes "properDay t"
  shows "Weekday (nextDay t) = (Weekday t + 1) mod 7"
proof -
  define a where "a = dayNumber t + 1"
  have "Weekday (nextDay t) = nat ((a + 1) mod 7)"
    by (simp add: Weekday_def dayNumber_nextDay [OF assms] a_def)
  moreover have "Weekday t = nat (a mod 7)" by (simp add: Weekday_def a_def)
  moreover have "nat ((a + 1) mod 7) = (nat (a mod 7) + 1) mod 7"
  proof -
    define r where "r = a mod 7"
    have r: "0 \<le> r" by (simp add: r_def)
    have "(a + 1) mod 7 = (r + 1) mod 7" unfolding r_def by (simp add: mod_add_left_eq)
    then have "nat ((a + 1) mod 7) = nat (r + 1) mod nat 7"
      using r by (simp add: nat_mod_distrib)
    also have "\<dots> = (nat r + 1) mod 7" using r by (simp add: nat_add_distrib)
    finally show ?thesis by (simp add: r_def)
  qed
  ultimately show ?thesis by simp
qed

lemma Weekday_days_later:
  assumes "properDay t"
  shows "properDay ((nextDay ^^ n) t) \<and> Weekday ((nextDay ^^ n) t) = (Weekday t + n) mod 7"
proof (induction n)
  case 0
  then show ?case using assms Weekday_less [of t] by simp
next
  case (Suc n)
  then have p: "properDay ((nextDay ^^ n) t)"
    and w: "Weekday ((nextDay ^^ n) t) = (Weekday t + n) mod 7" by simp_all
  have "Weekday ((nextDay ^^ Suc n) t) = ((Weekday t + n) mod 7 + 1) mod 7"
    using Weekday_nextDay [OF p] by (simp add: w)
  also have "\<dots> = (Weekday t + Suc n) mod 7" by (simp add: mod_Suc_eq)
  finally show ?case using properDay_nextDay [OF p] by simp
qed

subsection \<open>The printed text\<close>

lemma names_agree: "longDayNames = weekdayNames" "longMonthNames = monthNames"
  by (simp_all add: longDayNames_def weekdayNames_def longMonthNames_def monthNames_def)

lemma itoa_day:
  assumes "1 \<le> d" "d \<le> 99"
  shows "itoa d = dropWhile (\<lambda>c. c = CHR ''0'') (digits2 d)"
proof (cases "d < 10")
  case True
  then have "d div 10 = 0" "d mod 10 = d" by simp_all
  moreover have "char_of (48 + d) \<noteq> CHR ''0''"
    using digit_char_cases(3) [OF True] assms(1) by simp
  ultimately show ?thesis using True by (simp add: itoa.simps digits2_def digit_chars)
next
  case False
  have hi: "d div 10 < 10" using assms(2) by simp
  have "d div 10 \<noteq> 0" using False by simp
  then have nz: "char_of (48 + d div 10) \<noteq> CHR ''0''"
    using digit_char_cases(3) [OF hi] by simp
  have "itoa d = itoa (d div 10) @ [char_of (48 + d mod 10)]"
    using False by (subst itoa.simps) simp
  also have "itoa (d div 10) = [char_of (48 + d div 10)]"
    using hi by (simp add: itoa.simps)
  finally show ?thesis using nz by (simp add: digits2_def)
qed

lemma Format_dateText:
  assumes "properDay t"
  shows "Format t = dateText (Weekday t) t"
proof -
  have m: "1 \<le> month t" "month t \<le> 12" and d: "1 \<le> day t"
    and dl: "day t \<le> monthLength (year t) (month t)"
    using assms by (simp_all add: properDay_def)
  have "day t \<le> 99" using dl monthLength_bounds [OF m, of "year t"] by linarith
  then show ?thesis
    by (simp add: Format_def dateText_def names_agree itoa_day [OF d])
qed

lemma formatDate_calendar:
  assumes "calendarDate t"
  shows "formatDate (isoDate t) = dateText (Weekday t) t"
proof -
  have "properDay t" using assms by (simp add: calendarDate_def)
  then show ?thesis
    by (simp add: formatDate_def Parse_isoDate [OF assms] Format_dateText)
qed

lemma length_isoDate: "length (isoDate t) = 10"
  by (simp add: isoDate_def digits4_def digits2_def)

lemma Weekday_anchor: "Weekday \<lparr>year = 2024, month = 10, day = 13\<rparr> = 0"
  by code_simp

lemma properDay_anchor: "properDay \<lparr>year = 2024, month = 10, day = 13\<rparr>"
  by (simp add: properDay_def monthLength_def)

lemma steps_back:
  fixes w n :: nat
  assumes "(w + n) mod 7 = 0" "w < 7"
  shows "w = (7 - n mod 7) mod 7"
proof -
  define r where "r = n mod 7"
  have r: "r < 7" by (simp add: r_def)
  have "(w + r) mod 7 = 0" using assms(1) unfolding r_def by (simp add: mod_add_right_eq)
  then obtain k where k: "w + r = 7 * k" by (auto simp: mod_eq_0_iff_dvd dvd_def)
  have "k < 2" using assms(2) r k by linarith
  then have "k = 0 \<or> k = 1" by linarith
  then show ?thesis
  proof
    assume "k = 0"
    then have "w = 0" "r = 0" using k by simp_all
    then show ?thesis by (simp add: r_def [symmetric])
  next
    assume "k = 1"
    then have wr: "w + r = 7" using k by simp
    then have "0 < r" using assms(2) by linarith
    then have "(7 - r) mod 7 = 7 - r" by simp
    then show ?thesis using wr by (simp add: r_def [symmetric])
  qed
qed

text \<open>
  C7. \<open>formatDate\<close> maps \<open>"2024-10-13"\<close> to \<open>"Sunday October 13"\<close> and every date string
  in the form YYYY-MM-DD to the full name of its weekday, the full name of its month and
  its day of the month without padding. The weekday is the date's own: the day after a
  date has the next weekday, so the date \<open>n\<close> days after Sunday 13 October 2024 has
  weekday \<open>n mod 7\<close>, and a date \<open>n\<close> days before it the weekday that is \<open>n\<close> steps back.
  Every string that fails to parse in that layout, which is every string that is not the
  text of a date of the calendar, goes to the empty string.
\<close>

theorem formatDate_weekday_month_day:
  "formatDate ''2024-10-13'' = ''Sunday October 13''
   \<and> formatDate ''not-a-date'' = []
   \<and> (\<forall>t. calendarDate t \<longrightarrow>
         (\<exists>i<7. formatDate (isoDate t) = dateText i t
            \<and> (calendarDate (nextDay t)
                 \<longrightarrow> formatDate (isoDate (nextDay t)) = dateText ((i + 1) mod 7) (nextDay t))))
   \<and> (\<forall>n. calendarDate ((nextDay ^^ n) \<lparr>year = 2024, month = 10, day = 13\<rparr>) \<longrightarrow>
         formatDate (isoDate ((nextDay ^^ n) \<lparr>year = 2024, month = 10, day = 13\<rparr>))
           = dateText (n mod 7) ((nextDay ^^ n) \<lparr>year = 2024, month = 10, day = 13\<rparr>))
   \<and> (\<forall>n t. calendarDate t \<and> (nextDay ^^ n) t = \<lparr>year = 2024, month = 10, day = 13\<rparr> \<longrightarrow>
         formatDate (isoDate t) = dateText ((7 - n mod 7) mod 7) t)
   \<and> (\<forall>s. (\<forall>t. calendarDate t \<longrightarrow> s \<noteq> isoDate t) \<longrightarrow> formatDate s = [])
   \<and> (\<forall>s. Parse s = None \<longrightarrow> formatDate s = [])"
proof (intro conjI allI impI)
  show "formatDate ''2024-10-13'' = ''Sunday October 13''" by code_simp
next
  show "formatDate ''not-a-date'' = []" by code_simp
next
  fix t assume c: "calendarDate t"
  then have p: "properDay t" by (simp add: calendarDate_def)
  have "formatDate (isoDate t) = dateText (Weekday t) t"
    by (rule formatDate_calendar [OF c])
  moreover have "calendarDate (nextDay t) \<longrightarrow>
      formatDate (isoDate (nextDay t)) = dateText ((Weekday t + 1) mod 7) (nextDay t)"
    using formatDate_calendar [of "nextDay t"] Weekday_nextDay [OF p] by simp
  ultimately show "\<exists>i<7. formatDate (isoDate t) = dateText i t
            \<and> (calendarDate (nextDay t)
                 \<longrightarrow> formatDate (isoDate (nextDay t)) = dateText ((i + 1) mod 7) (nextDay t))"
    using Weekday_less [of t] by blast
next
  fix n
  assume c: "calendarDate ((nextDay ^^ n) \<lparr>year = 2024, month = 10, day = 13\<rparr>)"
  have "Weekday ((nextDay ^^ n) \<lparr>year = 2024, month = 10, day = 13\<rparr>) = n mod 7"
    using Weekday_days_later [OF properDay_anchor, of n] by (simp add: Weekday_anchor)
  then show "formatDate (isoDate ((nextDay ^^ n) \<lparr>year = 2024, month = 10, day = 13\<rparr>))
           = dateText (n mod 7) ((nextDay ^^ n) \<lparr>year = 2024, month = 10, day = 13\<rparr>)"
    using formatDate_calendar [OF c] by simp
next
  fix n t
  assume h: "calendarDate t \<and> (nextDay ^^ n) t = \<lparr>year = 2024, month = 10, day = 13\<rparr>"
  then have c: "calendarDate t" and p: "properDay t" by (simp_all add: calendarDate_def)
  have "(Weekday t + n) mod 7 = 0"
    using Weekday_days_later [OF p, of n] h by (simp add: Weekday_anchor)
  then have "Weekday t = (7 - n mod 7) mod 7"
    using Weekday_less [of t] by (rule steps_back)
  then show "formatDate (isoDate t) = dateText ((7 - n mod 7) mod 7) t"
    using formatDate_calendar [OF c] by simp
next
  fix s assume "\<forall>t. calendarDate t \<longrightarrow> s \<noteq> isoDate t"
  then have "Parse s = None" by (rule Parse_None)
  then show "formatDate s = []" by (simp add: formatDate_def)
next
  fix s assume "Parse s = None"
  then show "formatDate s = []" by (simp add: formatDate_def)
qed

theorem formatDate_weekday_month_day_witness:
  "calendarDate \<lparr>year = 2024, month = 10, day = 14\<rparr>
   \<and> formatDate ''2024-10-14'' = ''Monday October 14''
   \<and> calendarDate \<lparr>year = 2024, month = 10, day = 12\<rparr>
   \<and> formatDate ''2024-10-12'' = ''Saturday October 12''
   \<and> formatDate ''tomorrow'' = []
   \<and> Parse ''2023-02-29'' = None
   \<and> formatDate ''2023-02-29'' = []"
proof -
  note f = formatDate_weekday_month_day
  have fwd: "\<And>n. calendarDate ((nextDay ^^ n) \<lparr>year = 2024, month = 10, day = 13\<rparr>) \<Longrightarrow>
         formatDate (isoDate ((nextDay ^^ n) \<lparr>year = 2024, month = 10, day = 13\<rparr>))
           = dateText (n mod 7) ((nextDay ^^ n) \<lparr>year = 2024, month = 10, day = 13\<rparr>)"
    using f by blast
  have bwd: "\<And>n t. calendarDate t \<Longrightarrow> (nextDay ^^ n) t = \<lparr>year = 2024, month = 10, day = 13\<rparr> \<Longrightarrow>
         formatDate (isoDate t) = dateText ((7 - n mod 7) mod 7) t"
    using f by blast
  have none: "\<And>s. (\<forall>t. calendarDate t \<longrightarrow> s \<noteq> isoDate t) \<Longrightarrow> formatDate s = []"
    using f by blast
  have unparsed: "\<And>s. Parse s = None \<Longrightarrow> formatDate s = []"
    using f by blast
  have n14: "(nextDay ^^ 1) \<lparr>year = 2024, month = 10, day = 13\<rparr>
               = \<lparr>year = 2024, month = 10, day = 14\<rparr>"
    by (simp add: nextDay_def monthLength_def)
  have c14: "calendarDate \<lparr>year = 2024, month = 10, day = 14\<rparr>"
    by (simp add: calendarDate_def properDay_def monthLength_def)
  have i14: "isoDate \<lparr>year = 2024, month = 10, day = 14\<rparr> = ''2024-10-14''" by code_simp
  have t14: "dateText (1 mod 7) \<lparr>year = 2024, month = 10, day = 14\<rparr> = ''Monday October 14''"
    by code_simp
  have a: "formatDate ''2024-10-14'' = ''Monday October 14''"
    using fwd [of 1] c14 unfolding n14 i14 t14 by simp
  have n12: "(nextDay ^^ 1) \<lparr>year = 2024, month = 10, day = 12\<rparr>
               = \<lparr>year = 2024, month = 10, day = 13\<rparr>"
    by (simp add: nextDay_def monthLength_def)
  have c12: "calendarDate \<lparr>year = 2024, month = 10, day = 12\<rparr>"
    by (simp add: calendarDate_def properDay_def monthLength_def)
  have i12: "isoDate \<lparr>year = 2024, month = 10, day = 12\<rparr> = ''2024-10-12''" by code_simp
  have t12: "dateText ((7 - 1 mod 7) mod 7) \<lparr>year = 2024, month = 10, day = 12\<rparr>
               = ''Saturday October 12''"
    by code_simp
  have b: "formatDate ''2024-10-12'' = ''Saturday October 12''"
    using bwd [OF c12 n12] unfolding i12 t12 by simp
  have "\<forall>t. calendarDate t \<longrightarrow> ''tomorrow'' \<noteq> isoDate t"
  proof (intro allI impI)
    fix t show "''tomorrow'' \<noteq> isoDate t"
    proof
      assume "''tomorrow'' = isoDate t"
      then have "length ''tomorrow'' = length (isoDate t)" by (rule arg_cong)
      then show False by (simp add: length_isoDate)
    qed
  qed
  then have c: "formatDate ''tomorrow'' = []" by (rule none)
  have p: "Parse ''2023-02-29'' = None" by code_simp
  have d: "formatDate ''2023-02-29'' = []" using p by (rule unparsed)
  show ?thesis using c14 a c12 b c p d by blast
qed

section \<open>Claims about the submitted line\<close>

lemma Split_nonempty: "Split s sep \<noteq> []"
  by (induction s) (simp_all split: list.splits)

lemma Split_without_separator: "sep \<notin> set s \<Longrightarrow> Split s sep = [s]"
  by (induction s) auto

lemma Split_length: "length (Split s sep) = Suc (length (filter (\<lambda>c. c = sep) s))"
proof (induction s)
  case Nil
  then show ?case by simp
next
  case (Cons c cs)
  then show ?case using Split_nonempty [of cs sep]
    by (cases "Split cs sep") simp_all
qed

text \<open>
  C1. The claim is that a line without a comma sets the warning and goes on to the lookup
  without failing. The code stores the warning in its copy of the model and then reads
  \<open>parts[1]\<close> of a slice of length 1: for every input without a comma \<open>handleInput\<close>
  panics with an index out of range, returns no model, and runs no lookup.
\<close>

theorem handleInput_without_comma:
  assumes "CHR '','' \<notin> set inp"
  shows "handleInput W m inp = Inl (IndexOutOfRange 1 1)"
proof -
  have "Split inp CHR '','' = [inp]" using assms by (rule Split_without_separator)
  then show ?thesis by (simp add: handleInput_def index_def andThen_def)
qed

theorem handleInput_without_comma_witness:
  "CHR '','' \<notin> set ''Paris''
   \<and> handleInput (sampleWorld []) sampleModel ''Paris'' = Inl (IndexOutOfRange 1 1)"
proof -
  have h: "CHR '','' \<notin> set ''Paris''" by simp
  show ?thesis using h handleInput_without_comma [OF h] by blast
qed

text \<open>
  C9. When the geocoding request fails or finds no candidate, the lookup yields the pair
  \<open>"0.0"\<close>, \<open>"0.0"\<close>; \<open>handleInput\<close> then asks the forecast for \<open>"0.0"\<close>, \<open>"0.0"\<close> and stores
  a Location with city and region \<open>"Unknown"\<close>. The substitution is made for exactly
  that pair: with any other pair the Location keeps the trimmed city and state.
\<close>

theorem geocode_default_is_unknown:
  assumes "Split inp CHR '','' = p0 # p1 # ps"
  shows "(lookupFails W (httpGet W (searchURL city state))
            \<longrightarrow> getLatLonFromCityState W city state = (''0.0'', ''0.0''))
       \<and> (getLatLonFromCityState W (TrimSpace W p0) (TrimSpace W p1) = (''0.0'', ''0.0'')
            \<longrightarrow> handleInput W m inp
                 = andThen (getWeatherForLocation W ''0.0'' ''0.0'') (\<lambda>wx.
                   andThen (dailyWeatherArray wx) (\<lambda>arr.
                   Inr (m\<lparr>location := \<lparr>IP = [], City = ''Unknown'', Region = ''Unknown'',
                                        Country = [], LatLon = [], Lat = ''0.0'', Lon = ''0.0''\<rparr>,
                          dailyWeather := arr, weather := wx, input := []\<rparr>))))
       \<and> (\<forall>la lo. getLatLonFromCityState W (TrimSpace W p0) (TrimSpace W p1) = (la, lo)
                    \<and> (la, lo) \<noteq> (''0.0'', ''0.0'')
            \<longrightarrow> handleInput W m inp
                 = andThen (getWeatherForLocation W la lo) (\<lambda>wx.
                   andThen (dailyWeatherArray wx) (\<lambda>arr.
                   Inr (m\<lparr>location := \<lparr>IP = [], City = TrimSpace W p0, Region = TrimSpace W p1,
                                        Country = [], LatLon = [], Lat = la, Lon = lo\<rparr>,
                          dailyWeather := arr, weather := wx, input := []\<rparr>))))"
proof (intro conjI allI impI)
  assume "lookupFails W (httpGet W (searchURL city state))"
  then show "getLatLonFromCityState W city state = (''0.0'', ''0.0'')"
    by (auto simp: lookupFails_def getLatLonFromCityState_def Let_def
             split: http_result.splits read_result.splits option.splits list.splits)
next
  have two: "\<not> length (p0 # p1 # ps) < 2" by simp
  {
    assume "getLatLonFromCityState W (TrimSpace W p0) (TrimSpace W p1) = (''0.0'', ''0.0'')"
    then show "handleInput W m inp
                 = andThen (getWeatherForLocation W ''0.0'' ''0.0'') (\<lambda>wx.
                   andThen (dailyWeatherArray wx) (\<lambda>arr.
                   Inr (m\<lparr>location := \<lparr>IP = [], City = ''Unknown'', Region = ''Unknown'',
                                        Country = [], LatLon = [], Lat = ''0.0'', Lon = ''0.0''\<rparr>,
                          dailyWeather := arr, weather := wx, input := []\<rparr>)))"
      unfolding handleInput_def Let_def assms
      by (simp add: index_def andThen_def cong: sum.case_cong)
  }
  {
    fix la lo
    assume "getLatLonFromCityState W (TrimSpace W p0) (TrimSpace W p1) = (la, lo)
              \<and> (la, lo) \<noteq> (''0.0'', ''0.0'')"
    then show "handleInput W m inp
                 = andThen (getWeatherForLocation W la lo) (\<lambda>wx.
                   andThen (dailyWeatherArray wx) (\<lambda>arr.
                   Inr (m\<lparr>location := \<lparr>IP = [], City = TrimSpace W p0, Region = TrimSpace W p1,
                                        Country = [], LatLon = [], Lat = la, Lon = lo\<rparr>,
                          dailyWeather := arr, weather := wx, input := []\<rparr>)))"
      unfolding handleInput_def Let_def assms
      by (auto simp: index_def andThen_def cong: sum.case_cong)
  }
qed


theorem geocode_default_is_unknown_witness:
  "Split ''Atlantis, XX'' CHR '','' = [''Atlantis'', '' XX'']
   \<and> lookupFails (sampleWorld []) (httpGet (sampleWorld []) (searchURL ''Atlantis'' ''XX''))
   \<and> getLatLonFromCityState (sampleWorld []) ''Atlantis'' ''XX'' = (''0.0'', ''0.0'')
   \<and> handleInput (sampleWorld []) sampleModel ''Atlantis, XX''
       = Inr (sampleModel\<lparr>location := \<lparr>IP = [], City = ''Unknown'', Region = ''Unknown'',
                                          Country = [], LatLon = [], Lat = ''0.0'', Lon = ''0.0''\<rparr>,
                           dailyWeather := [\<lparr>dayWeatherCode = 0, dayTime = ''2024-10-13'',
                                             dayTemperatureMax = Finite False 2652901655497933 (- 45),
                                             dayTemperatureMin = Finite False 4236198399495373 (- 46)\<rparr>],
                           weather := oneDay, input := []\<rparr>)
   \<and> handleInput (sampleWorld [\<lparr>lat = ''34.05'', lon = ''-118.24''\<rparr>]) sampleModel
         ''Los Angeles, CA''
       = Inr (sampleModel\<lparr>location := \<lparr>IP = [], City = ''Los Angeles'', Region = ''CA'',
                                          Country = [], LatLon = [], Lat = ''34.05'',
                                          Lon = ''-118.24''\<rparr>,
                           dailyWeather := [\<lparr>dayWeatherCode = 0, dayTime = ''2024-10-13'',
                                             dayTemperatureMax = Finite False 2652901655497933 (- 45),
                                             dayTemperatureMin = Finite False 4236198399495373 (- 46)\<rparr>],
                           weather := oneDay, input := []\<rparr>)"
proof -
  have sp: "Split ''Atlantis, XX'' CHR '','' = ''Atlantis'' # '' XX'' # []" by simp
  have tr: "TrimSpace (sampleWorld cs) ''Atlantis'' = ''Atlantis''"
    "TrimSpace (sampleWorld cs) '' XX'' = ''XX''" for cs
    by (simp_all add: sampleWorld_def trimBlanks_def)
  have wx: "getWeatherForLocation (sampleWorld cs) la lo = Inr oneDay" for cs la lo
    by (simp add: getWeatherForLocation_def sampleWorld_def Let_def)
  have arr: "dailyWeatherArray oneDay
               = Inr [\<lparr>dayWeatherCode = 0, dayTime = ''2024-10-13'',
                       dayTemperatureMax = Finite False 2652901655497933 (- 45),
                                             dayTemperatureMin = Finite False 4236198399495373 (- 46)\<rparr>]"
    by (simp add: dailyWeatherArray_def dailyWeatherAt_def oneDay_def index_def andThen_def)
  have lf: "lookupFails (sampleWorld []) (httpGet (sampleWorld []) (searchURL ''Atlantis'' ''XX''))"
    by (simp add: lookupFails_def sampleWorld_def)
  note t = geocode_default_is_unknown [OF sp, of "sampleWorld []" "''Atlantis''" "''XX''" sampleModel]
  have ll: "getLatLonFromCityState (sampleWorld []) ''Atlantis'' ''XX'' = (''0.0'', ''0.0'')"
    using t lf by blast
  have "handleInput (sampleWorld []) sampleModel ''Atlantis, XX''
          = andThen (getWeatherForLocation (sampleWorld []) ''0.0'' ''0.0'') (\<lambda>wx.
            andThen (dailyWeatherArray wx) (\<lambda>arr.
            Inr (sampleModel\<lparr>location := \<lparr>IP = [], City = ''Unknown'', Region = ''Unknown'',
                                 Country = [], LatLon = [], Lat = ''0.0'', Lon = ''0.0''\<rparr>,
                   dailyWeather := arr, weather := wx, input := []\<rparr>)))"
    using t ll by (simp only: tr)
  then have a: "handleInput (sampleWorld []) sampleModel ''Atlantis, XX''
       = Inr (sampleModel\<lparr>location := \<lparr>IP = [], City = ''Unknown'', Region = ''Unknown'',
                                          Country = [], LatLon = [], Lat = ''0.0'', Lon = ''0.0''\<rparr>,
                           dailyWeather := [\<lparr>dayWeatherCode = 0, dayTime = ''2024-10-13'',
                                             dayTemperatureMax = Finite False 2652901655497933 (- 45),
                                             dayTemperatureMin = Finite False 4236198399495373 (- 46)\<rparr>],
                           weather := oneDay, input := []\<rparr>)"
    by (simp only: wx arr andThen_def sum.case)
  have sp2: "Split ''Los Angeles, CA'' CHR '','' = ''Los Angeles'' # '' CA'' # []" by simp
  have tr2: "TrimSpace (sampleWorld cs) ''Los Angeles'' = ''Los Angeles''"
    "TrimSpace (sampleWorld cs) '' CA'' = ''CA''" for cs
    by (simp_all add: sampleWorld_def trimBlanks_def)
  have ll2: "getLatLonFromCityState (sampleWorld [\<lparr>lat = ''34.05'', lon = ''-118.24''\<rparr>])
               ''Los Angeles'' ''CA'' = (''34.05'', ''-118.24'')
             \<and> (''34.05'', ''-118.24'') \<noteq> (''0.0'', ''0.0'')"
    by (simp add: getLatLonFromCityState_def sampleWorld_def Let_def)
  note u = geocode_default_is_unknown [OF sp2,
      of "sampleWorld [\<lparr>lat = ''34.05'', lon = ''-118.24''\<rparr>]" "''Los Angeles''" "''CA''" sampleModel]
  have "handleInput (sampleWorld [\<lparr>lat = ''34.05'', lon = ''-118.24''\<rparr>]) sampleModel
          ''Los Angeles, CA''
          = andThen (getWeatherForLocation (sampleWorld [\<lparr>lat = ''34.05'', lon = ''-118.24''\<rparr>])
                       ''34.05'' ''-118.24'') (\<lambda>wx.
            andThen (dailyWeatherArray wx) (\<lambda>arr.
            Inr (sampleModel\<lparr>location := \<lparr>IP = [], City = ''Los Angeles'', Region = ''CA'',
                                 Country = [], LatLon = [], Lat = ''34.05'', Lon = ''-118.24''\<rparr>,
                   dailyWeather := arr, weather := wx, input := []\<rparr>)))"
    using u ll2 unfolding tr2 by blast
  then have b: "handleInput (sampleWorld [\<lparr>lat = ''34.05'', lon = ''-118.24''\<rparr>]) sampleModel
         ''Los Angeles, CA''
       = Inr (sampleModel\<lparr>location := \<lparr>IP = [], City = ''Los Angeles'', Region = ''CA'',
                                          Country = [], LatLon = [], Lat = ''34.05'',
                                          Lon = ''-118.24''\<rparr>,
                           dailyWeather := [\<lparr>dayWeatherCode = 0, dayTime = ''2024-10-13'',
                                             dayTemperatureMax = Finite False 2652901655497933 (- 45),
                                             dayTemperatureMin = Finite False 4236198399495373 (- 46)\<rparr>],
                           weather := oneDay, input := []\<rparr>)"
    by (simp only: wx arr andThen_def sum.case)
  show ?thesis using sp lf ll a b by simp
qed

section \<open>Claims about the view\<close>

text \<open>
  C10. Two models that agree on every field but \<open>message\<close> have the same view: \<open>View\<close>
  never reads the warning that \<open>handleInput\<close> stores.
\<close>

theorem View_ignores_message:
  assumes "input m1 = input m2"
    and "location m1 = location m2"
    and "dailyWeather m1 = dailyWeather m2"
    and "weather m1 = weather m2"
  shows "View R m1 = View R m2"
  unfolding View_def by (simp only: assms)

theorem View_ignores_message_witness:
  "input (sampleModel\<lparr>weather := oneDay\<rparr>)
     = input (sampleModel\<lparr>weather := oneDay, message := ''Please enter both a city and a state (e.g., Los Angeles, CA)''\<rparr>)
   \<and> message (sampleModel\<lparr>weather := oneDay\<rparr>)
     \<noteq> message (sampleModel\<lparr>weather := oneDay, message := ''Please enter both a city and a state (e.g., Los Angeles, CA)''\<rparr>)
   \<and> View plainRendering (sampleModel\<lparr>weather := oneDay\<rparr>)
     = View plainRendering (sampleModel\<lparr>weather := oneDay, message := ''Please enter both a city and a state (e.g., Los Angeles, CA)''\<rparr>)"
proof -
  define m1 where "m1 = sampleModel\<lparr>weather := oneDay\<rparr>"
  define m2 where "m2 = sampleModel\<lparr>weather := oneDay, message := ''Please enter both a city and a state (e.g., Los Angeles, CA)''\<rparr>"
  have h: "input m1 = input m2" "location m1 = location m2"
    "dailyWeather m1 = dailyWeather m2" "weather m1 = weather m2"
    by (simp_all add: m1_def m2_def)
  have d: "message m1 \<noteq> message m2"
    by (simp add: m1_def m2_def sampleModel_def)
  have "View plainRendering m1 = View plainRendering m2"
    by (rule View_ignores_message [OF h])
  then show ?thesis using h(1) d unfolding m1_def m2_def by blast
qed

section \<open>A forecast of one day, rendered\<close>

text \<open>
  The whole view of a one-day forecast on the plain terminal: the header, the nine rows
  in their order, and the prompt.
\<close>

lemma center_date: "center ''Sunday October 13'' 25 = Inr ''    Sunday October 13    ''"
  by code_simp

lemma render_dates: "formatDatesLine [''2024-10-13''] 25 = Inr ''    Sunday October 13    ''"
proof -
  have fd: "formatDate ''2024-10-13'' = ''Sunday October 13''" by code_simp
  show ?thesis
    unfolding formatDatesLine_def formatDatesChunk_def line_def
    by (simp add: fd center_date andThen_def)
qed

lemma render_space: "formatSpaceLine (len [''2024-10-13'']) 25 = Inr ''                         ''"
proof -
  have "sint (len [''2024-10-13'']) = 1" by (simp add: len_def)
  moreover have "Repeat '' '' 25 = Inr ''                         ''" by code_simp
  ultimately show ?thesis
    unfolding formatSpaceLine_def line_def by (simp add: andThen_def)
qed

lemma render_glyph1:
  "formatVisualWeatherLine plainRendering [0] 25 1 = Inr (''          '' @ CHR 0x5C # '' | /          '')"
proof -
  have "pad (CHR 0x5C # '' | /'') 5 25 = Inr (''          '' @ CHR 0x5C # '' | /          '')"
    by code_simp
  then show ?thesis
    unfolding formatVisualWeatherLine_def formatASCIICodeChunk_def line_def
    by (simp add: getASCIILine1ForWeather_def plainRendering_def len_def andThen_def)
qed

lemma render_glyph2:
  "formatVisualWeatherLine plainRendering [0] 25 2 = Inr ''         -- O --         ''"
proof -
  have "pad ''-- O --'' 7 25 = Inr ''         -- O --         ''"
    by code_simp
  then show ?thesis
    unfolding formatVisualWeatherLine_def formatASCIICodeChunk_def line_def
    by (simp add: getASCIILine2ForWeather_def plainRendering_def len_def andThen_def)
qed

lemma render_glyph3:
  "formatVisualWeatherLine plainRendering [0] 25 3 = Inr (''          / | '' @ CHR 0x5C # ''          '')"
proof -
  have "pad (''/ | '' @ [CHR 0x5C]) 5 25 = Inr (''          / | '' @ CHR 0x5C # ''          '')"
    by code_simp
  then show ?thesis
    unfolding formatVisualWeatherLine_def formatASCIICodeChunk_def line_def
    by (simp add: getASCIILine3ForWeather_def plainRendering_def len_def andThen_def)
qed

lemma render_codes: "formatWeatherCodeLine [0] 25 = Inr ''          Sunny          ''"
  by code_simp

lemma render_highs:
  "formatHighsLine [Finite False 2652901655497933 (- 45)] 25 = Inr ''         High 75         ''"
proof -
  have "Sprintf_f0 (Finite False 2652901655497933 (- 45)) = ''75''"
    by (simp add: Sprintf_eval)
  moreover have "center ''High 75'' 25 = Inr ''         High 75         ''" by code_simp
  ultimately show ?thesis
    unfolding formatHighsLine_def formatHighsChunk_def line_def
    by (simp add: andThen_def)
qed

lemma render_lows:
  "formatLowsLine [Finite False 4236198399495373 (- 46)] 25 = Inr ''         Low 60          ''"
proof -
  have "Sprintf_f0 (Finite False 4236198399495373 (- 46)) = ''60''"
    by (simp add: Sprintf_eval)
  moreover have "center ''Low 60'' 25 = Inr ''         Low 60          ''" by code_simp
  ultimately show ?thesis
    unfolding formatLowsLine_def formatLowsChunk_def line_def
    by (simp add: andThen_def)
qed

lemma View_oneDay:
  "View plainRendering (sampleModel\<lparr>weather := oneDay\<rparr>)
     = Inr (''\<newline>Weather for Minneapolis, Minnesota\<newline>''
            @ ''Latitude: 44.98, Longitude: -93.2638\<newline>\<newline>''
            @ ''    Sunday October 13    \<newline>''
            @ ''                         \<newline>''
            @ ''          '' @ CHR 0x5C # '' | /          \<newline>''
            @ ''         -- O --         \<newline>''
            @ ''          / | '' @ CHR 0x5C # ''          \<newline>''
            @ ''                         \<newline>''
            @ ''          Sunny          \<newline>''
            @ ''         High 75         \<newline>''
            @ ''         Low 60          \<newline>\<newline>\<newline>''
            @ ''Enter a city and state (e.g., Los Angeles, CA) to get weather or type 'quit' to exit: \<newline>'')"
proof -
  have f: "Time (Daily (weather (sampleModel\<lparr>weather := oneDay\<rparr>))) = [''2024-10-13'']"
    "WeatherCode (Daily (weather (sampleModel\<lparr>weather := oneDay\<rparr>))) = [0]"
    "TemperatureMax (Daily (weather (sampleModel\<lparr>weather := oneDay\<rparr>)))
       = [Finite False 2652901655497933 (- 45)]"
    "TemperatureMin (Daily (weather (sampleModel\<lparr>weather := oneDay\<rparr>)))
       = [Finite False 4236198399495373 (- 46)]"
    by (simp_all add: oneDay_def)
  have g: "City (location (sampleModel\<lparr>weather := oneDay\<rparr>)) = ''Minneapolis''"
    "Region (location (sampleModel\<lparr>weather := oneDay\<rparr>)) = ''Minnesota''"
    "Lat (location (sampleModel\<lparr>weather := oneDay\<rparr>)) = ''44.98''"
    "Lon (location (sampleModel\<lparr>weather := oneDay\<rparr>)) = ''-93.2638''"
    "input (sampleModel\<lparr>weather := oneDay\<rparr>) = []"
    by (simp_all add: sampleModel_def)
  have t: "titleStyle plainRendering = (\<lambda>s. s)" by (simp add: plainRendering_def)
  show ?thesis
    unfolding View_def Let_def f g t render_dates render_space render_glyph1 render_glyph2
      render_glyph3 render_codes render_highs render_lows andThen_def sum.case
    by simp
qed

end
